theory Spec2Isabelle
  imports Main "HOL-Library.Word"
begin

section \<open>The send-rate limiter of the worker\<close>

text \<open>
  The worker keeps one \<open>RateLimiter\<close> object per process. Its fields are the configured
  \<open>limit\<close>, the number \<open>sent\<close> of sends counted in the current window and \<open>resetTime\<close>,
  the instant (milliseconds) at which the current window ends. The window lasts
  60000 ms, so the start of the window is \<open>resetTime - 60000\<close>. JavaScript numbers are
  modelled as unbounded integers; \<open>Date.now()\<close> is passed in as the argument \<open>now\<close>.
  The limit is the integer that \<open>parseInt\<close> reads from the environment (default 80); a
  setting that is no number is not modelled.
\<close>

record RateLimiter =
  limit :: int
  sent :: int
  resetTime :: int

definition RateLimiter_new :: "int \<Rightarrow> int \<Rightarrow> RateLimiter" where
  "RateLimiter_new lim now = \<lparr>limit = lim, sent = 0, resetTime = now + 60000\<rparr>"

text \<open>
  \<open>canSend\<close> first rolls the window over when it has expired and then compares the
  counter with the limit. It returns the answer together with the limiter as the call
  leaves it. The console message of the refusing branch is emitted by the caller's model
  (\<open>waitForSlot\<close> below), it is no part of the limiter.
\<close>

definition canSend :: "int \<Rightarrow> RateLimiter \<Rightarrow> bool \<times> RateLimiter" where
  "canSend now rl =
     (let rl1 = (if now \<ge> resetTime rl then rl\<lparr>sent := 0, resetTime := now + 60000\<rparr> else rl)
      in if sent rl1 \<ge> limit rl1 then (False, rl1) else (True, rl1))"

definition incrementSent :: "RateLimiter \<Rightarrow> RateLimiter" where
  "incrementSent rl = rl\<lparr>sent := sent rl + 1\<rparr>"

text \<open>
  The way the email job uses the limiter: ask \<open>canSend\<close>, and count the send with
  \<open>incrementSent\<close> when the answer was yes. \<open>sendRounds k\<close> does this \<open>k\<close> times at one
  instant and collects the answers.
\<close>

definition sendRound :: "int \<Rightarrow> RateLimiter \<Rightarrow> bool \<times> RateLimiter" where
  "sendRound now rl =
     (case canSend now rl of
        (True, rl1) \<Rightarrow> (True, incrementSent rl1)
      | (False, rl1) \<Rightarrow> (False, rl1))"

fun sendRounds :: "nat \<Rightarrow> int \<Rightarrow> RateLimiter \<Rightarrow> bool list \<times> RateLimiter" where
  "sendRounds 0 now rl = ([], rl)"
| "sendRounds (Suc k) now rl =
     (case sendRound now rl of
        (b, rl1) \<Rightarrow> (case sendRounds k now rl1 of (bs, rl2) \<Rightarrow> (b # bs, rl2)))"

text \<open>Any interleaving of the two methods of the limiter, with the answers of \<open>canSend\<close>.\<close>

datatype limiter_call = CanSend int | IncrementSent

fun limiter_calls :: "limiter_call list \<Rightarrow> RateLimiter \<Rightarrow> bool list \<times> RateLimiter" where
  "limiter_calls [] rl = ([], rl)"
| "limiter_calls (CanSend now # cs) rl =
     (case canSend now rl of
        (b, rl1) \<Rightarrow> (case limiter_calls cs rl1 of (bs, rl2) \<Rightarrow> (b # bs, rl2)))"
| "limiter_calls (IncrementSent # cs) rl = limiter_calls cs (incrementSent rl)"

section \<open>JavaScript strings and values\<close>

text \<open>
  A JavaScript string is a sequence of 16-bit code units, a \<open>Buffer\<close> a sequence of
  bytes. Strings whose characters the code never inspects (messages, ids of the
  provider) are kept as \<open>string\<close>. \<open>js\<close> turns an ASCII literal into a JavaScript string.
\<close>

type_synonym jschar = "16 word"
type_synonym jstring = "jschar list"
type_synonym byte = "8 word"

definition js :: "string \<Rightarrow> jstring" where
  "js s = map of_char s"

text \<open>
  The values \<open>JSON.parse\<close> can return, and \<open>undefined\<close>. A number written without
  fraction and exponent, or whose value is an integer, is \<open>JInt\<close>; any other number is
  \<open>JDec m e\<close>, the decimal \<open>m * 10^e\<close> with \<open>e < 0\<close> (its rounding to a double is
  not modelled). An object is the list of its members in the order of the text.
\<close>

datatype jsval =
    JUndefined
  | JNull
  | JBool bool
  | JInt int
  | JDec int int
  | JString jstring
  | JArray "jsval list"
  | JObject "(jstring \<times> jsval) list"

text \<open>A thrown JavaScript error, with its \<open>message\<close> and \<open>stack\<close> properties.\<close>

datatype error = Error (message: string) (stack: string)

section \<open>Decimal numerals\<close>

text \<open>
  The decimal text of an integer, as template literals and \<open>JSON.stringify\<close> print a
  number that is an integer (below \<open>10^21\<close> in magnitude; every such number that a
  JavaScript double holds exactly prints as its plain digits).
\<close>

definition digit_char :: "nat \<Rightarrow> char" where
  "digit_char d = char_of (48 + d)"

fun show_nat :: "nat \<Rightarrow> string" where
  "show_nat n = (if n < 10 then [digit_char n] else show_nat (n div 10) @ [digit_char (n mod 10)])"

declare show_nat.simps [simp del]

definition show_int :: "int \<Rightarrow> string" where
  "show_int i = (if i < 0 then CHR ''-'' # show_nat (nat (- i)) else show_nat (nat i))"

section \<open>The tracking-token codec\<close>

text \<open>
  The server has no codec of its own: a token is made by
  \<open>Buffer.from(JSON.stringify(data)).toString('base64')\<close> and read by
  \<open>JSON.parse(Buffer.from(id, 'base64').toString('utf-8'))\<close>. The four conversions
  of the platform are modelled here after their specifications.
\<close>

subsection \<open>Base64\<close>

text \<open>The character of a six-bit value in the standard alphabet.\<close>

definition base64_char :: "nat \<Rightarrow> char" where
  "base64_char n =
     (if n < 26 then char_of (65 + n)
      else if n < 52 then char_of (71 + n)
      else if n < 62 then char_of (n - 4)
      else if n = 62 then CHR ''+'' else CHR ''/'')"

text \<open>\<open>buf.toString('base64')\<close>: three bytes give four characters, the tail is padded.\<close>

fun base64_encode :: "byte list \<Rightarrow> string" where
  "base64_encode [] = []"
| "base64_encode [a] =
     [base64_char (unat a div 4), base64_char (unat a mod 4 * 16), CHR ''='', CHR ''='']"
| "base64_encode [a, b] =
     [base64_char (unat a div 4), base64_char (unat a mod 4 * 16 + unat b div 16),
      base64_char (unat b mod 16 * 4), CHR ''='']"
| "base64_encode (a # b # c # bs) =
     [base64_char (unat a div 4), base64_char (unat a mod 4 * 16 + unat b div 16),
      base64_char (unat b mod 16 * 4 + unat c div 64), base64_char (unat c mod 64)]
     @ base64_encode bs"

text \<open>
  The six-bit value of a character; the decoder also takes the two characters of the
  URL-safe alphabet. Every other character has no value.
\<close>

definition unbase64 :: "char \<Rightarrow> nat option" where
  "unbase64 c =
     (let n = (of_char c :: nat)
      in if 65 \<le> n \<and> n \<le> 90 then Some (n - 65)
         else if 97 \<le> n \<and> n \<le> 122 then Some (n - 71)
         else if 48 \<le> n \<and> n \<le> 57 then Some (n + 4)
         else if c = CHR ''+'' \<or> c = CHR ''-'' then Some 62
         else if c = CHR ''/'' \<or> c = CHR ''_'' then Some 63
         else None)"

text \<open>
  \<open>Buffer.from(s, 'base64')\<close> never fails: characters without a value are skipped, the
  first \<open>=\<close> ends the input, and a last group of two or three characters gives one or
  two bytes (a single left-over character gives none).
\<close>

fun base64_sextets :: "string \<Rightarrow> nat list" where
  "base64_sextets [] = []"
| "base64_sextets (c # cs) =
     (if c = CHR ''='' then []
      else (case unbase64 c of
              Some v \<Rightarrow> v # base64_sextets cs
            | None \<Rightarrow> base64_sextets cs))"

fun base64_bytes :: "nat list \<Rightarrow> byte list" where
  "base64_bytes (a # b # c # d # vs) =
     [word_of_nat (a * 4 + b div 16), word_of_nat (b mod 16 * 16 + c div 4),
      word_of_nat (c mod 4 * 64 + d)] @ base64_bytes vs"
| "base64_bytes [a, b, c] =
     [word_of_nat (a * 4 + b div 16), word_of_nat (b mod 16 * 16 + c div 4)]"
| "base64_bytes [a, b] = [word_of_nat (a * 4 + b div 16)]"
| "base64_bytes vs = []"

definition base64_decode :: "string \<Rightarrow> byte list" where
  "base64_decode s = base64_bytes (base64_sextets s)"

subsection \<open>UTF-8\<close>

definition is_high :: "jschar \<Rightarrow> bool" where
  "is_high u \<longleftrightarrow> 0xD800 \<le> u \<and> u \<le> 0xDBFF"

definition is_low :: "jschar \<Rightarrow> bool" where
  "is_low u \<longleftrightarrow> 0xDC00 \<le> u \<and> u \<le> 0xDFFF"

text \<open>
  \<open>Buffer.from(s)\<close>: the UTF-8 bytes of a string. A high surrogate followed by a low
  one is one code point of four bytes; a surrogate that stands alone is written as the
  replacement character U+FFFD.
\<close>

definition encode_unit :: "jschar \<Rightarrow> byte list" where
  "encode_unit u =
     (let n = unat u
      in if n < 0x80 then [word_of_nat n]
         else if n < 0x800 then [word_of_nat (0xC0 + n div 64), word_of_nat (0x80 + n mod 64)]
         else if is_high u \<or> is_low u then [0xEF, 0xBF, 0xBD]
         else [word_of_nat (0xE0 + n div 4096), word_of_nat (0x80 + n div 64 mod 64),
               word_of_nat (0x80 + n mod 64)])"

definition encode_pair :: "jschar \<Rightarrow> jschar \<Rightarrow> byte list" where
  "encode_pair u v =
     (let c = 0x10000 + (unat u - 0xD800) * 1024 + (unat v - 0xDC00)
      in [word_of_nat (0xF0 + c div 262144), word_of_nat (0x80 + c div 4096 mod 64),
          word_of_nat (0x80 + c div 64 mod 64), word_of_nat (0x80 + c mod 64)])"

fun utf8_encode :: "jstring \<Rightarrow> byte list" where
  "utf8_encode [] = []"
| "utf8_encode [u] = encode_unit u"
| "utf8_encode (u # v # us) =
     (if is_high u \<and> is_low v then encode_pair u v @ utf8_encode us
      else encode_unit u @ utf8_encode (v # us))"

text \<open>
  \<open>buf.toString('utf-8')\<close> never fails either: a byte sequence that is no UTF-8 (a
  stray or missing continuation byte, an overlong form, an encoded surrogate, a code
  point above U+10FFFF) gives U+FFFD, one for each longest prefix of a sequence that
  could still have been valid.
\<close>

definition continuation :: "byte \<Rightarrow> bool" where
  "continuation b \<longleftrightarrow> 0x80 \<le> b \<and> b \<le> 0xBF"

text \<open>The second byte that a lead byte of a three- or four-byte sequence admits.\<close>

definition second_of :: "byte \<Rightarrow> byte \<Rightarrow> bool" where
  "second_of b c \<longleftrightarrow>
     (if b = 0xE0 then 0xA0 \<le> c \<and> c \<le> 0xBF
      else if b = 0xED then 0x80 \<le> c \<and> c \<le> 0x9F
      else if b = 0xF0 then 0x90 \<le> c \<and> c \<le> 0xBF
      else if b = 0xF4 then 0x80 \<le> c \<and> c \<le> 0x8F
      else continuation c)"

definition decode2 :: "byte \<Rightarrow> byte \<Rightarrow> jschar" where
  "decode2 b c = word_of_nat ((unat b - 0xC0) * 64 + (unat c - 0x80))"

definition decode3 :: "byte \<Rightarrow> byte \<Rightarrow> byte \<Rightarrow> jschar" where
  "decode3 b c d = word_of_nat ((unat b - 0xE0) * 4096 + (unat c - 0x80) * 64 + (unat d - 0x80))"

definition decode4 :: "byte \<Rightarrow> byte \<Rightarrow> byte \<Rightarrow> byte \<Rightarrow> jschar list" where
  "decode4 b c d e =
     (let p = (unat b - 0xF0) * 262144 + (unat c - 0x80) * 4096 + (unat d - 0x80) * 64
              + (unat e - 0x80) - 0x10000
      in [word_of_nat (0xD800 + p div 1024), word_of_nat (0xDC00 + p mod 1024)])"

fun utf8_decode :: "byte list \<Rightarrow> jstring" where
  "utf8_decode [] = []"
| "utf8_decode (b # bs) =
     (if b < 0x80 then word_of_nat (unat b) # utf8_decode bs
      else if 0xC2 \<le> b \<and> b \<le> 0xDF then
        (case bs of
           [] \<Rightarrow> [0xFFFD]
         | c # cs \<Rightarrow>
             if continuation c then decode2 b c # utf8_decode cs else 0xFFFD # utf8_decode bs)
      else if 0xE0 \<le> b \<and> b \<le> 0xEF then
        (case bs of
           [] \<Rightarrow> [0xFFFD]
         | c # cs \<Rightarrow>
             if second_of b c then
               (case cs of
                  [] \<Rightarrow> [0xFFFD]
                | d # ds \<Rightarrow>
                    if continuation d then decode3 b c d # utf8_decode ds
                    else 0xFFFD # utf8_decode cs)
             else 0xFFFD # utf8_decode bs)
      else if 0xF0 \<le> b \<and> b \<le> 0xF4 then
        (case bs of
           [] \<Rightarrow> [0xFFFD]
         | c # cs \<Rightarrow>
             if second_of b c then
               (case cs of
                  [] \<Rightarrow> [0xFFFD]
                | d # ds \<Rightarrow>
                    if continuation d then
                      (case ds of
                         [] \<Rightarrow> [0xFFFD]
                       | e # es \<Rightarrow>
                           if continuation e then decode4 b c d e @ utf8_decode es
                           else 0xFFFD # utf8_decode ds)
                    else 0xFFFD # utf8_decode cs)
             else 0xFFFD # utf8_decode bs)
      else 0xFFFD # utf8_decode bs)"

text \<open>
  A string is well formed when every surrogate in it is one half of a pair. These are
  the strings that UTF-8 can hold without loss.
\<close>

fun well_formed :: "jstring \<Rightarrow> bool" where
  "well_formed [] = True"
| "well_formed [u] = (\<not> is_high u \<and> \<not> is_low u)"
| "well_formed (u # v # us) =
     (if is_high u \<and> is_low v then well_formed us
      else \<not> is_high u \<and> \<not> is_low u \<and> well_formed (v # us))"

subsection \<open>JSON text\<close>

text \<open>
  The object that \<open>/api/generate-tracking-urls\<close> encodes: three numbers and, when it
  was given, the original URL.
\<close>

record trackingData =
  td_leadId :: int
  td_campaignLeadId :: int
  td_campaignStepId :: int
  td_originalUrl :: "jstring option"

definition hex_digit :: "nat \<Rightarrow> jschar" where
  "hex_digit d = (if d < 10 then word_of_nat (48 + d) else word_of_nat (87 + d))"

definition unicode_escape :: "jschar \<Rightarrow> jstring" where
  "unicode_escape u =
     (let n = unat u
      in [0x5C, 0x75, hex_digit (n div 4096), hex_digit (n div 256 mod 16),
          hex_digit (n div 16 mod 16), hex_digit (n mod 16)])"

text \<open>
  How \<open>JSON.stringify\<close> writes one code unit inside a string: the seven short escapes,
  \<open>\uXXXX\<close> for the other control characters and for a surrogate that stands alone,
  and the unit itself otherwise.
\<close>

definition escape_unit :: "jschar \<Rightarrow> jstring" where
  "escape_unit u =
     (if u = 0x08 then [0x5C, 0x62]
      else if u = 0x09 then [0x5C, 0x74]
      else if u = 0x0A then [0x5C, 0x6E]
      else if u = 0x0C then [0x5C, 0x66]
      else if u = 0x0D then [0x5C, 0x72]
      else if u = 0x22 then [0x5C, 0x22]
      else if u = 0x5C then [0x5C, 0x5C]
      else if u < 0x20 \<or> is_high u \<or> is_low u then unicode_escape u
      else [u])"

fun quote_body :: "jstring \<Rightarrow> jstring" where
  "quote_body [] = []"
| "quote_body [u] = escape_unit u"
| "quote_body (u # v # us) =
     (if is_high u \<and> is_low v then u # v # quote_body us
      else escape_unit u @ quote_body (v # us))"

definition JSON_quote :: "jstring \<Rightarrow> jstring" where
  "JSON_quote s = 0x22 # quote_body s @ [0x22]"

text \<open>
  \<open>JSON.stringify\<close> of a tracking object: the members in the order in which the
  properties were set, without white space.
\<close>

definition JSON_stringify :: "trackingData \<Rightarrow> jstring" where
  \<open>JSON_stringify td =
     js ''{"leadId":'' @ js (show_int (td_leadId td)) @
     js '',"campaignLeadId":'' @ js (show_int (td_campaignLeadId td)) @
     js '',"campaignStepId":'' @ js (show_int (td_campaignStepId td)) @
     (case td_originalUrl td of
        None \<Rightarrow> []
      | Some u \<Rightarrow> js '',"originalUrl":'' @ JSON_quote u) @
     js ''}''\<close>

text \<open>The parser of \<open>JSON.parse\<close>, after the grammar of JSON.\<close>

definition is_ws :: "jschar \<Rightarrow> bool" where
  "is_ws c \<longleftrightarrow> c = 0x20 \<or> c = 0x09 \<or> c = 0x0A \<or> c = 0x0D"

definition skip_ws :: "jstring \<Rightarrow> jstring" where
  "skip_ws cs = dropWhile is_ws cs"

definition is_digit :: "jschar \<Rightarrow> bool" where
  "is_digit c \<longleftrightarrow> 0x30 \<le> c \<and> c \<le> 0x39"

definition digits_value :: "jstring \<Rightarrow> nat" where
  "digits_value ds = foldl (\<lambda>a c. a * 10 + (unat c - 48)) 0 ds"

text \<open>
  The value of a number with sign, digits \<open>m\<close> (integer and fraction digits read as one
  numeral), \<open>k\<close> fraction digits and exponent \<open>e\<close>.
\<close>

definition number_value :: "bool \<Rightarrow> nat \<Rightarrow> nat \<Rightarrow> int \<Rightarrow> jsval" where
  "number_value neg m k e =
     (let x = e - int k; sm = (if neg then - int m else int m)
      in if 0 \<le> x then JInt (sm * 10 ^ nat x)
         else if 10 ^ nat (- x) dvd sm then JInt (sm div 10 ^ nat (- x))
         else JDec sm x)"

definition parse_exponent :: "jstring \<Rightarrow> (int \<times> jstring) option" where
  "parse_exponent cs =
     (case cs of
        [] \<Rightarrow> Some (0, cs)
      | c # r \<Rightarrow>
          if c = 0x65 \<or> c = 0x45 then
            (let (neg, r1) = (case r of
                                [] \<Rightarrow> (False, r)
                              | s # r' \<Rightarrow> if s = 0x2D then (True, r') else if s = 0x2B then (False, r')
                                          else (False, r))
             in if takeWhile is_digit r1 = [] then None
                else Some ((if neg then - int (digits_value (takeWhile is_digit r1))
                            else int (digits_value (takeWhile is_digit r1))),
                           dropWhile is_digit r1))
          else Some (0, cs))"

definition parse_fraction :: "jstring \<Rightarrow> (jstring \<times> jstring) option" where
  "parse_fraction cs =
     (case cs of
        [] \<Rightarrow> Some ([], cs)
      | c # r \<Rightarrow>
          if c = 0x2E then
            (if takeWhile is_digit r = [] then None
             else Some (takeWhile is_digit r, dropWhile is_digit r))
          else Some ([], cs))"

definition parse_unsigned :: "bool \<Rightarrow> jstring \<Rightarrow> (jsval \<times> jstring) option" where
  "parse_unsigned neg cs =
     (case cs of
        [] \<Rightarrow> None
      | c # r \<Rightarrow>
          if \<not> is_digit c then None
          else
            (let ip = (if c = 0x30 then [c] else takeWhile is_digit cs);
                 r1 = (if c = 0x30 then r else dropWhile is_digit cs)
             in case parse_fraction r1 of
                  None \<Rightarrow> None
                | Some (fd, r2) \<Rightarrow>
                    (case parse_exponent r2 of
                       None \<Rightarrow> None
                     | Some (e, r3) \<Rightarrow>
                         Some (number_value neg (digits_value (ip @ fd)) (length fd) e, r3))))"

definition parse_number :: "jstring \<Rightarrow> (jsval \<times> jstring) option" where
  "parse_number cs =
     (case cs of
        [] \<Rightarrow> None
      | c # r \<Rightarrow> if c = 0x2D then parse_unsigned True r else parse_unsigned False cs)"

definition hex_value :: "jschar \<Rightarrow> nat option" where
  "hex_value c =
     (if 0x30 \<le> c \<and> c \<le> 0x39 then Some (unat c - 48)
      else if 0x61 \<le> c \<and> c \<le> 0x66 then Some (unat c - 87)
      else if 0x41 \<le> c \<and> c \<le> 0x46 then Some (unat c - 55)
      else None)"

definition parse_hex4 :: "jschar \<Rightarrow> jschar \<Rightarrow> jschar \<Rightarrow> jschar \<Rightarrow> jschar option" where
  "parse_hex4 a b c d =
     (case (hex_value a, hex_value b, hex_value c, hex_value d) of
        (Some h1, Some h2, Some h3, Some h4) \<Rightarrow> Some (word_of_nat (h1 * 4096 + h2 * 256 + h3 * 16 + h4))
      | _ \<Rightarrow> None)"

definition unescape :: "jschar \<Rightarrow> jschar option" where
  "unescape e =
     (if e = 0x22 then Some 0x22
      else if e = 0x5C then Some 0x5C
      else if e = 0x2F then Some 0x2F
      else if e = 0x62 then Some 0x08
      else if e = 0x66 then Some 0x0C
      else if e = 0x6E then Some 0x0A
      else if e = 0x72 then Some 0x0D
      else if e = 0x74 then Some 0x09
      else None)"

definition cons_string :: "jschar \<Rightarrow> (jstring \<times> jstring) option \<Rightarrow> (jstring \<times> jstring) option" where
  "cons_string u r = (case r of None \<Rightarrow> None | Some (s, rest) \<Rightarrow> Some (u # s, rest))"

text \<open>
  The characters of a string after its opening quote, up to the closing one. A control
  character that is not escaped, an unknown escape and a missing closing quote are
  syntax errors.
\<close>

fun parse_string_body :: "jstring \<Rightarrow> (jstring \<times> jstring) option" where
  "parse_string_body [] = None"
| "parse_string_body (c # cs) =
     (if c = 0x22 then Some ([], cs)
      else if c = 0x5C then
        (case cs of
           [] \<Rightarrow> None
         | e # es \<Rightarrow>
             if e = 0x75 then
               (case es of
                  h1 # h2 # h3 # h4 # r \<Rightarrow>
                    (case parse_hex4 h1 h2 h3 h4 of
                       None \<Rightarrow> None
                     | Some u \<Rightarrow> cons_string u (parse_string_body r))
                | _ \<Rightarrow> None)
             else
               (case unescape e of
                  None \<Rightarrow> None
                | Some u \<Rightarrow> cons_string u (parse_string_body es)))
      else if c < 0x20 then None
      else cons_string c (parse_string_body cs))"

definition parse_literal :: "string \<Rightarrow> jsval \<Rightarrow> jstring \<Rightarrow> (jsval \<times> jstring) option" where
  "parse_literal word v cs =
     (if take (length word) cs = js word then Some (v, drop (length word) cs) else None)"

text \<open>
  Values, the elements of an array after \<open>[\<close> and the members of an object after \<open>{\<close>.
  The first argument bounds the number of nested calls; \<open>JSON_parse\<close> starts with more
  than any text of its length can use, since every call but that for an element is
  made after at least one more character has been read.
\<close>

fun parse_value :: "nat \<Rightarrow> jstring \<Rightarrow> (jsval \<times> jstring) option"
  and parse_elements :: "nat \<Rightarrow> jsval list \<Rightarrow> jstring \<Rightarrow> (jsval \<times> jstring) option"
  and parse_members :: "nat \<Rightarrow> (jstring \<times> jsval) list \<Rightarrow> jstring \<Rightarrow> (jsval \<times> jstring) option"
  where
  "parse_value 0 cs = None"
| "parse_value (Suc n) cs =
     (case skip_ws cs of
        [] \<Rightarrow> None
      | c # r \<Rightarrow>
          if c = 0x7B then
            (case skip_ws r of
               [] \<Rightarrow> None
             | d # r1 \<Rightarrow> if d = 0x7D then Some (JObject [], r1) else parse_members n [] (d # r1))
          else if c = 0x5B then
            (case skip_ws r of
               [] \<Rightarrow> None
             | d # r1 \<Rightarrow> if d = 0x5D then Some (JArray [], r1) else parse_elements n [] (d # r1))
          else if c = 0x22 then
            (case parse_string_body r of
               None \<Rightarrow> None
             | Some (s, r1) \<Rightarrow> Some (JString s, r1))
          else if c = 0x74 then parse_literal ''true'' (JBool True) (c # r)
          else if c = 0x66 then parse_literal ''false'' (JBool False) (c # r)
          else if c = 0x6E then parse_literal ''null'' JNull (c # r)
          else parse_number (c # r))"
| "parse_elements 0 acc cs = None"
| "parse_elements (Suc n) acc cs =
     (case parse_value n cs of
        None \<Rightarrow> None
      | Some (v, r) \<Rightarrow>
          (case skip_ws r of
             [] \<Rightarrow> None
           | d # r1 \<Rightarrow>
               if d = 0x2C then parse_elements n (v # acc) r1
               else if d = 0x5D then Some (JArray (rev (v # acc)), r1)
               else None))"
| "parse_members 0 acc cs = None"
| "parse_members (Suc n) acc cs =
     (case skip_ws cs of
        [] \<Rightarrow> None
      | q # r \<Rightarrow>
          if q \<noteq> 0x22 then None
          else
            (case parse_string_body r of
               None \<Rightarrow> None
             | Some (k, r1) \<Rightarrow>
                 (case skip_ws r1 of
                    [] \<Rightarrow> None
                  | colon # r2 \<Rightarrow>
                      if colon \<noteq> 0x3A then None
                      else
                        (case parse_value n r2 of
                           None \<Rightarrow> None
                         | Some (v, r3) \<Rightarrow>
                             (case skip_ws r3 of
                                [] \<Rightarrow> None
                              | d # r4 \<Rightarrow>
                                  if d = 0x2C then parse_members n ((k, v) # acc) r4
                                  else if d = 0x7D then Some (JObject (rev ((k, v) # acc)), r4)
                                  else None)))))"

text \<open>\<open>JSON.parse\<close>: one value, with nothing but white space after it.\<close>

definition syntaxError :: error where
  "syntaxError = Error ''Unexpected token in JSON'' ''SyntaxError''"

definition JSON_parse :: "jstring \<Rightarrow> error + jsval" where
  "JSON_parse s =
     (case parse_value (2 * length s + 2) s of
        None \<Rightarrow> Inl syntaxError
      | Some (v, r) \<Rightarrow> if skip_ws r = [] then Inr v else Inl syntaxError)"

subsection \<open>Tokens\<close>

definition encodeToken :: "trackingData \<Rightarrow> string" where
  "encodeToken td = base64_encode (utf8_encode (JSON_stringify td))"

definition decodeToken :: "string \<Rightarrow> error + jsval" where
  "decodeToken t = JSON_parse (utf8_decode (base64_decode t))"

text \<open>
  Reading a property of a decoded value. Only an object has the properties that the
  server asks for; a property that occurs twice in the text has its last value.
\<close>

definition property :: "jsval \<Rightarrow> string \<Rightarrow> jsval" where
  "property v k =
     (case v of
        JObject kvs \<Rightarrow> (case map_of (rev kvs) (js k) of None \<Rightarrow> JUndefined | Some x \<Rightarrow> x)
      | _ \<Rightarrow> JUndefined)"

text \<open>The tracking object as the value that \<open>JSON.parse\<close> gives back for its text.\<close>

definition trackingData_value :: "trackingData \<Rightarrow> jsval" where
  "trackingData_value td =
     JObject ([(js ''leadId'', JInt (td_leadId td)),
               (js ''campaignLeadId'', JInt (td_campaignLeadId td)),
               (js ''campaignStepId'', JInt (td_campaignStepId td))] @
              (case td_originalUrl td of None \<Rightarrow> [] | Some u \<Rightarrow> [(js ''originalUrl'', JString u)]))"

text \<open>A character after which a number cannot go on.\<close>

definition ends_number :: "jschar \<Rightarrow> bool" where
  "ends_number c \<longleftrightarrow> \<not> is_digit c \<and> c \<noteq> 0x2E \<and> c \<noteq> 0x65 \<and> c \<noteq> 0x45"


section \<open>The email worker\<close>

subsection \<open>Data of the worker\<close>

datatype eventType = SENT | FAILED | DELIVERED | BOUNCED

record emailData =
  to :: string
  subject :: string
  content :: "string option"

text \<open>
  What the deliverer returns. \<open>timestamp\<close> is a date (milliseconds) when present;
  \<open>errorText\<close> is the property \<open>error\<close> of the result.
\<close>

record sendResult =
  success :: bool
  messageId :: string
  timestamp :: "int option"
  errorText :: "string option"

record emailJob =
  job_leadId :: int
  job_campaignLeadId :: int
  job_campaignStepId :: int
  job_emailData :: "emailData option"
  job_timestamp :: int

text \<open>The \<open>metadata\<close> column of a send event: the keys the worker writes.\<close>

record sendMetadata =
  meta_messageId :: "string option"
  meta_rateLimitCount :: "int option"
  meta_processingTime :: int
  meta_error :: "string option"

text \<open>
  Modelled from the spec: the schema of the database (\<open>prisma/schema.prisma\<close>) is not
  among the sources. The columns of a send event are those that the code writes and that
  the spec lists for a SendRecord. \<open>sendEventData\<close> is the \<open>data\<close> argument of
  \<open>prisma.sendEvent.create\<close>, \<open>sendEvent\<close> a stored row.
\<close>

record sendEventData =
  eventType :: eventType
  leadId :: int
  campaignLeadId :: int
  campaignStepId :: int
  sentAt :: int
  errorMessage :: "string option"
  metadata :: sendMetadata

record sendEvent = sendEventData +
  id :: int
  deliveredAt :: "int option"
  openedAt :: "int option"
  clickedAt :: "int option"
  bouncedAt :: "int option"

datatype jobResult = JobResult (job_success: bool) (sendEventId: int)

text \<open>The lines written to the console, one constructor per message of the source.\<close>

datatype log_entry =
    LogProcessingEmail int int int
  | LogRateLimitReached int
  | LogSendingTo string
  | LogSubject string
  | LogContent string
  | LogEmailSent int
  | LogJobFailed int error
  | LogRecordFailed error
  | LogProcessingWebhook string
  | LogUnknownWebhook string
  | LogWebhookProcessed string
  | LogWebhookFailed string error
  | LogRedirectError error
  | LogOpenError error

subsection \<open>The deliverer\<close>

text \<open>
  A deliverer gets the email data of the job and the current time; it returns a result
  or raises, together with the time at which it finished and its console lines. The
  source's \<open>sendEmail\<close> is a placeholder that waits 500 ms and reports success; it raises
  a \<open>TypeError\<close> when the job carries no email data or no content. \<open>rnd\<close> stands for
  the random suffix of the message id.
\<close>

type_synonym deliverer = "emailData option \<Rightarrow> int \<Rightarrow> (error + sendResult) \<times> int \<times> log_entry list"

definition sendEmail :: "string \<Rightarrow> deliverer" where
  "sendEmail rnd ed now =
     (case ed of
        None \<Rightarrow>
          (Inl (Error ''Cannot read properties of undefined (reading 'to')'' ''TypeError''), now, [])
      | Some d \<Rightarrow>
          (case content d of
             None \<Rightarrow>
               (Inl (Error ''Cannot read properties of undefined (reading 'substring')'' ''TypeError''),
                now, [LogSendingTo (to d), LogSubject (subject d)])
           | Some c \<Rightarrow>
               (Inr \<lparr>success = True,
                     messageId = ''msg-'' @ show_int (now + 500) @ ''-'' @ rnd,
                     timestamp = Some (now + 500),
                     errorText = None\<rparr>,
                now + 500,
                [LogSendingTo (to d), LogSubject (subject d), LogContent (take 100 c)])))"

subsection \<open>The store\<close>

text \<open>
  The database client is an external collaborator. The worker and the server reach it
  through four calls, each of which either fails with an error, leaving the database as
  it was, or succeeds with a new database. \<open>'db\<close> is the state of the database.
  The \<open>data\<close> argument of \<open>updateMany\<close> names the columns to write; a column that
  is not named keeps its value. Its \<open>where\<close> argument is either the JSON-path filter
  on the message id in \<open>metadata\<close>, or the conjunction of the three ids and an event
  type; there the ids are the JavaScript values that the handler has read from the token.
\<close>

record sendEventPatch =
  set_eventType :: "eventType option"
  set_deliveredAt :: "int option"
  set_openedAt :: "int option"
  set_clickedAt :: "int option"
  set_bouncedAt :: "int option"
  set_errorMessage :: "string option"

definition no_patch :: sendEventPatch where
  "no_patch = \<lparr>set_eventType = None, set_deliveredAt = None, set_openedAt = None,
               set_clickedAt = None, set_bouncedAt = None, set_errorMessage = None\<rparr>"

datatype whereClause =
    WhereMessageId string
  | WhereTracking jsval jsval jsval eventType

record 'db prisma =
  sendEvent_create :: "sendEventData \<Rightarrow> 'db \<Rightarrow> error + (int \<times> 'db)"
  sendEvent_updateMany :: "whereClause \<Rightarrow> sendEventPatch \<Rightarrow> 'db \<Rightarrow> error + 'db"
  campaignLead_update :: "int \<Rightarrow> int \<Rightarrow> 'db \<Rightarrow> error + 'db"
  lead_update :: "int \<Rightarrow> string \<Rightarrow> int \<Rightarrow> 'db \<Rightarrow> error + 'db"

subsection \<open>The email job\<close>

text \<open>
  The state the email job works on: the clock (\<open>Date.now()\<close>), the one rate limiter of
  the process, the database and the console. A timer of \<open>d\<close> ms moves the clock by \<open>d\<close>.
\<close>

record 'db world =
  clock :: int
  rateLimiter :: RateLimiter
  db :: 'db
  console :: "log_entry list"

text \<open>
  The polling loop at the head of the job: \<open>while (!(await rateLimiter.canSend()))\<close>
  sleeps one second and asks again. The loop need not end (it does not with limit 0),
  so its model is a partial function and \<open>None\<close> stands for a loop that never returns.
\<close>

partial_function (option) waitForSlot :: "'db world \<Rightarrow> 'db world option" where
  "waitForSlot w =
     (case canSend (clock w) (rateLimiter w) of
        (ok, rl) \<Rightarrow>
          if ok then Some (w\<lparr>rateLimiter := rl\<rparr>)
          else waitForSlot (w\<lparr>clock := clock w + 1000, rateLimiter := rl,
                 console := console w @ [LogRateLimitReached (resetTime rl - clock w)]\<rparr>))"

text \<open>
  The body of the \<open>try\<close> block after the loop. It returns the job's result, or the
  error that was thrown, and the world at that point.
\<close>

definition sentData :: "emailJob \<Rightarrow> sendResult \<Rightarrow> 'db world \<Rightarrow> sendEventData" where
  "sentData job result w =
     \<lparr>eventType = (if success result then SENT else FAILED),
      leadId = job_leadId job,
      campaignLeadId = job_campaignLeadId job,
      campaignStepId = job_campaignStepId job,
      sentAt = (case timestamp result of Some t \<Rightarrow> t | None \<Rightarrow> clock w),
      errorMessage =
        (if success result then None
         else (case errorText result of
                 None \<Rightarrow> Some ''Unknown error''
               | Some e \<Rightarrow> if e = [] then Some ''Unknown error'' else Some e)),
      metadata = \<lparr>meta_messageId = Some (messageId result),
                  meta_rateLimitCount = Some (sent (rateLimiter w)),
                  meta_processingTime = clock w - job_timestamp job,
                  meta_error = None\<rparr>\<rparr>"

definition failedData :: "emailJob \<Rightarrow> error \<Rightarrow> 'db world \<Rightarrow> sendEventData" where
  "failedData job err w =
     \<lparr>eventType = FAILED,
      leadId = job_leadId job,
      campaignLeadId = job_campaignLeadId job,
      campaignStepId = job_campaignStepId job,
      sentAt = clock w,
      errorMessage = Some (message err),
      metadata = \<lparr>meta_messageId = None,
                  meta_rateLimitCount = None,
                  meta_processingTime = clock w - job_timestamp job,
                  meta_error = Some (stack err)\<rparr>\<rparr>"

definition sendAndRecord ::
  "deliverer \<Rightarrow> 'db prisma \<Rightarrow> emailJob \<Rightarrow> 'db world \<Rightarrow> (error + jobResult) \<times> 'db world" where
  "sendAndRecord deliver client job w =
     (case deliver (job_emailData job) (clock w) of
        (Inl err, t, out) \<Rightarrow> (Inl err, w\<lparr>clock := t, console := console w @ out\<rparr>)
      | (Inr result, t, out) \<Rightarrow>
          (let w1 = w\<lparr>clock := t, console := console w @ out,
                      rateLimiter := incrementSent (rateLimiter w)\<rparr>
           in case sendEvent_create client (sentData job result w1) (db w1) of
                Inl err \<Rightarrow> (Inl err, w1)
              | Inr (newId, db1) \<Rightarrow>
                  (let w2 = w1\<lparr>db := db1, console := console w1 @ [LogEmailSent newId]\<rparr>
                   in if success result then
                        (case campaignLead_update client (job_campaignLeadId job) (clock w2) (db w2) of
                           Inl err \<Rightarrow> (Inl err, w2)
                         | Inr db2 \<Rightarrow>
                             (case lead_update client (job_leadId job) ''CONTACTED'' (clock w2) db2 of
                                Inl err \<Rightarrow> (Inl err, w2\<lparr>db := db2\<rparr>)
                              | Inr db3 \<Rightarrow> (Inr (JobResult True newId), w2\<lparr>db := db3\<rparr>)))
                      else (Inr (JobResult True newId), w2))))"

text \<open>
  The \<open>catch\<close> block: the error is logged, a FAILED event is written, an error of that
  write is logged and dropped, and the caught error is thrown again.
\<close>

definition recordFailure ::
  "'db prisma \<Rightarrow> emailJob \<Rightarrow> error \<Rightarrow> 'db world \<Rightarrow> (error + jobResult) \<times> 'db world" where
  "recordFailure client job err w =
     (let w1 = w\<lparr>console := console w @ [LogJobFailed (job_leadId job) err]\<rparr>
      in case sendEvent_create client (failedData job err w1) (db w1) of
           Inl dbError \<Rightarrow> (Inl err, w1\<lparr>console := console w1 @ [LogRecordFailed dbError]\<rparr>)
         | Inr (newId, db1) \<Rightarrow> (Inl err, w1\<lparr>db := db1\<rparr>))"

text \<open>The job first writes its opening line to the console, then it polls the limiter.\<close>

definition jobStart :: "emailJob \<Rightarrow> 'db world \<Rightarrow> 'db world" where
  "jobStart job w =
     w\<lparr>console := console w @
          [LogProcessingEmail (job_leadId job) (job_campaignLeadId job) (job_campaignStepId job)]\<rparr>"

definition processEmailJob ::
  "deliverer \<Rightarrow> 'db prisma \<Rightarrow> emailJob \<Rightarrow> 'db world \<Rightarrow> ((error + jobResult) \<times> 'db world) option" where
  "processEmailJob deliver client job w =
     (case waitForSlot (jobStart job w) of
        None \<Rightarrow> None
      | Some w1 \<Rightarrow>
          (case sendAndRecord deliver client job w1 of
             (Inr r, w2) \<Rightarrow> Some (Inr r, w2)
           | (Inl err, w2) \<Rightarrow> Some (recordFailure client job err w2)))"

subsection \<open>The webhook job\<close>

record webhookData =
  wh_messageId :: string
  wh_timestamp :: int
  wh_reason :: "string option"

record webhookJob =
  wh_type :: string
  wh_data :: "webhookData option"

definition noData :: error where
  "noData = Error ''Cannot read properties of undefined (reading 'messageId')'' ''TypeError''"

text \<open>
  Every known type does one \<open>updateMany\<close> on the events whose metadata holds the
  message id of the callback; reading the message id of a job without \<open>data\<close> throws.
  A property that is \<open>undefined\<close> in the \<open>data\<close> of an update (the reason of a bounce
  that has none) leaves its column as it is.
\<close>

definition updateByMessageId ::
  "'db prisma \<Rightarrow> webhookJob \<Rightarrow> (webhookData \<Rightarrow> sendEventPatch) \<Rightarrow> 'db \<Rightarrow> error + 'db" where
  "updateByMessageId client job patch d =
     (case wh_data job of
        None \<Rightarrow> Inl noData
      | Some wd \<Rightarrow> sendEvent_updateMany client (WhereMessageId (wh_messageId wd)) (patch wd) d)"

text \<open>
  The \<open>switch\<close> on the type, with the console lines of its branch. A type that is not
  known is logged and changes nothing.
\<close>

definition webhookSwitch ::
  "'db prisma \<Rightarrow> webhookJob \<Rightarrow> 'db \<Rightarrow> error + ('db \<times> log_entry list)" where
  "webhookSwitch client job d =
     (if wh_type job = ''email_delivered'' then
        map_sum (\<lambda>e. e) (\<lambda>d1. (d1, []))
          (updateByMessageId client job
             (\<lambda>wd. no_patch\<lparr>set_eventType := Some DELIVERED, set_deliveredAt := Some (wh_timestamp wd)\<rparr>) d)
      else if wh_type job = ''email_opened'' then
        map_sum (\<lambda>e. e) (\<lambda>d1. (d1, []))
          (updateByMessageId client job
             (\<lambda>wd. no_patch\<lparr>set_openedAt := Some (wh_timestamp wd)\<rparr>) d)
      else if wh_type job = ''email_clicked'' then
        map_sum (\<lambda>e. e) (\<lambda>d1. (d1, []))
          (updateByMessageId client job
             (\<lambda>wd. no_patch\<lparr>set_clickedAt := Some (wh_timestamp wd)\<rparr>) d)
      else if wh_type job = ''email_bounced'' then
        map_sum (\<lambda>e. e) (\<lambda>d1. (d1, []))
          (updateByMessageId client job
             (\<lambda>wd. no_patch\<lparr>set_eventType := Some BOUNCED, set_bouncedAt := Some (wh_timestamp wd),
                             set_errorMessage := wh_reason wd\<rparr>) d)
      else Inr (d, [LogUnknownWebhook (wh_type job)]))"

text \<open>
  The webhook job: the switch inside \<open>try\<close>; an error is logged and thrown again. The
  job works on the database and the console.
\<close>

definition processWebhookJob ::
  "'db prisma \<Rightarrow> webhookJob \<Rightarrow> 'db \<times> log_entry list \<Rightarrow> (error + bool) \<times> 'db \<times> log_entry list" where
  "processWebhookJob client job st =
     (case st of (d, out) \<Rightarrow>
        (let out1 = out @ [LogProcessingWebhook (wh_type job)]
         in case webhookSwitch client job d of
              Inl err \<Rightarrow> (Inl err, d, out1 @ [LogWebhookFailed (wh_type job) err])
            | Inr (d1, lines) \<Rightarrow> (Inr True, d1, out1 @ lines @ [LogWebhookProcessed (wh_type job)])))"

subsection \<open>An in-memory store\<close>

text \<open>
  Modelled from the spec: the database client and its schema are not among the sources.
  This is a reference implementation of the four calls of the store contract on tables
  held in memory, after the documented behaviour of the client: \<open>create\<close> appends a
  row with the next id; \<open>update\<close> of a row that does not exist fails; \<open>updateMany\<close>
  writes the given columns of every row that matches, where a filter value
  \<open>undefined\<close> is no filter and a filter value that is no integer is rejected before
  anything is written.
\<close>

record memDb =
  sendEvents :: "sendEvent list"
  leads :: "(int \<times> string \<times> int) list"
  campaignLeads :: "(int \<times> int) list"

definition newRow :: "int \<Rightarrow> sendEventData \<Rightarrow> sendEvent" where
  "newRow i data =
     \<lparr>eventType = eventType data, leadId = leadId data, campaignLeadId = campaignLeadId data,
      campaignStepId = campaignStepId data, sentAt = sentAt data,
      errorMessage = errorMessage data, metadata = metadata data,
      id = i, deliveredAt = None, openedAt = None, clickedAt = None, bouncedAt = None\<rparr>"

definition mem_create :: "sendEventData \<Rightarrow> memDb \<Rightarrow> error + (int \<times> memDb)" where
  "mem_create data d =
     (let i = int (length (sendEvents d)) + 1
      in Inr (i, d\<lparr>sendEvents := sendEvents d @ [newRow i data]\<rparr>))"

definition notFound :: error where
  "notFound = Error ''Record to update not found.'' ''PrismaClientKnownRequestError''"

definition invalidFilter :: error where
  "invalidFilter = Error ''Invalid value provided. Expected Int.'' ''PrismaClientValidationError''"

definition mem_campaignLead_update :: "int \<Rightarrow> int \<Rightarrow> memDb \<Rightarrow> error + memDb" where
  "mem_campaignLead_update i now d =
     (if i \<in> fst ` set (campaignLeads d)
      then Inr (d\<lparr>campaignLeads := map (\<lambda>(k, t). if k = i then (k, now) else (k, t)) (campaignLeads d)\<rparr>)
      else Inl notFound)"

definition mem_lead_update :: "int \<Rightarrow> string \<Rightarrow> int \<Rightarrow> memDb \<Rightarrow> error + memDb" where
  "mem_lead_update i st now d =
     (if i \<in> fst ` set (leads d)
      then Inr (d\<lparr>leads := map (\<lambda>(k, s, t). if k = i then (k, st, now) else (k, s, t)) (leads d)\<rparr>)
      else Inl notFound)"

fun filterValid :: "jsval \<Rightarrow> bool" where
  "filterValid JUndefined = True"
| "filterValid (JInt n) = True"
| "filterValid v = False"

fun filterHolds :: "jsval \<Rightarrow> int \<Rightarrow> bool" where
  "filterHolds (JInt n) x = (x = n)"
| "filterHolds v x = True"

fun whereValid :: "whereClause \<Rightarrow> bool" where
  "whereValid (WhereMessageId m) = True"
| "whereValid (WhereTracking a b c ty) = (filterValid a \<and> filterValid b \<and> filterValid c)"

fun whereHolds :: "whereClause \<Rightarrow> sendEvent \<Rightarrow> bool" where
  "whereHolds (WhereMessageId m) r = (meta_messageId (metadata r) = Some m)"
| "whereHolds (WhereTracking a b c ty) r =
     (filterHolds a (leadId r) \<and> filterHolds b (campaignLeadId r) \<and>
      filterHolds c (campaignStepId r) \<and> eventType r = ty)"

definition applyPatch :: "sendEventPatch \<Rightarrow> sendEvent \<Rightarrow> sendEvent" where
  "applyPatch p r =
     r\<lparr>eventType := (case set_eventType p of None \<Rightarrow> eventType r | Some e \<Rightarrow> e),
       deliveredAt := (case set_deliveredAt p of None \<Rightarrow> deliveredAt r | Some t \<Rightarrow> Some t),
       openedAt := (case set_openedAt p of None \<Rightarrow> openedAt r | Some t \<Rightarrow> Some t),
       clickedAt := (case set_clickedAt p of None \<Rightarrow> clickedAt r | Some t \<Rightarrow> Some t),
       bouncedAt := (case set_bouncedAt p of None \<Rightarrow> bouncedAt r | Some t \<Rightarrow> Some t),
       errorMessage := (case set_errorMessage p of None \<Rightarrow> errorMessage r | Some m \<Rightarrow> Some m)\<rparr>"

definition mem_updateMany :: "whereClause \<Rightarrow> sendEventPatch \<Rightarrow> memDb \<Rightarrow> error + memDb" where
  "mem_updateMany w p d =
     (if whereValid w
      then Inr (d\<lparr>sendEvents := map (\<lambda>r. if whereHolds w r then applyPatch p r else r) (sendEvents d)\<rparr>)
      else Inl invalidFilter)"

definition memPrisma :: "memDb prisma" where
  "memPrisma = \<lparr>sendEvent_create = mem_create, sendEvent_updateMany = mem_updateMany,
                campaignLead_update = mem_campaignLead_update, lead_update = mem_lead_update\<rparr>"

text \<open>The effect of \<open>updateMany\<close> with the message-id filter on the tables in memory.\<close>

definition patchByMessageId :: "string \<Rightarrow> sendEventPatch \<Rightarrow> memDb \<Rightarrow> memDb" where
  "patchByMessageId m p d =
     d\<lparr>sendEvents := map (\<lambda>r. if meta_messageId (metadata r) = Some m then applyPatch p r else r)
                         (sendEvents d)\<rparr>"


section \<open>The tracking endpoints of the server\<close>

text \<open>
  What a handler sends: a redirect to a location (the value is turned into a string by
  the framework), a text with a status, or a body with a status and headers.
\<close>

datatype response =
    Redirect jsval
  | SendText nat string
  | Send nat "(string \<times> string) list" "byte list"

text \<open>
  \<open>const { leadId, campaignLeadId, campaignStepId, originalUrl } = data\<close>: the four
  properties of the decoded value. Destructuring \<open>null\<close> throws.
\<close>

definition nullError :: error where
  "nullError = Error ''Cannot destructure property 'leadId' of null'' ''TypeError''"

definition trackingFields :: "jsval \<Rightarrow> error + (jsval \<times> jsval \<times> jsval \<times> jsval)" where
  "trackingFields v =
     (case v of
        JNull \<Rightarrow> Inl nullError
      | JUndefined \<Rightarrow> Inl nullError
      | _ \<Rightarrow> Inr (property v ''leadId'', property v ''campaignLeadId'',
                  property v ''campaignStepId'', property v ''originalUrl''))"

text \<open>What JavaScript takes for true in a condition.\<close>

fun truthy :: "jsval \<Rightarrow> bool" where
  "truthy JUndefined = False"
| "truthy JNull = False"
| "truthy (JBool b) = b"
| "truthy (JInt n) = (n \<noteq> 0)"
| "truthy (JString s) = (s \<noteq> [])"
| "truthy v = True"

text \<open>
  The part of both handlers that sits in their \<open>try\<close> block: decode the token, read the
  ids and write the given column of the SENT events of these ids. It returns the
  original URL of the token and the new database, or the error that was thrown.
\<close>

definition recordEvent ::
  "'db prisma \<Rightarrow> string \<Rightarrow> sendEventPatch \<Rightarrow> 'db \<Rightarrow> error + (jsval \<times> 'db)" where
  "recordEvent client t p d =
     (case decodeToken t of
        Inl err \<Rightarrow> Inl err
      | Inr data \<Rightarrow>
          (case trackingFields data of
             Inl err \<Rightarrow> Inl err
           | Inr (l, cl, cs, url) \<Rightarrow>
               (case sendEvent_updateMany client (WhereTracking l cl cs SENT) p d of
                  Inl err \<Rightarrow> Inl err
                | Inr d1 \<Rightarrow> Inr (url, d1))))"

text \<open>
  \<open>GET /r/:id?url=...\<close>. \<open>t\<close> is the path parameter, \<open>url\<close> the query parameter when
  it is given. After a recorded click the handler redirects to \<open>url || originalUrl\<close>;
  after an error it logs the error and redirects to \<open>url\<close> when there is one.
\<close>

definition redirectHandler ::
  "'db prisma \<Rightarrow> int \<Rightarrow> string \<Rightarrow> jstring option \<Rightarrow> 'db \<times> log_entry list
     \<Rightarrow> response \<times> 'db \<times> log_entry list" where
  "redirectHandler client now t url st =
     (case st of (d, out) \<Rightarrow>
        (let given = (case url of None \<Rightarrow> JUndefined | Some u \<Rightarrow> JString u)
         in case recordEvent client t (no_patch\<lparr>set_clickedAt := Some now\<rparr>) d of
              Inr (originalUrl, d1) \<Rightarrow>
                (let targetUrl = (if truthy given then given else originalUrl)
                 in if truthy targetUrl then (Redirect targetUrl, d1, out)
                    else (SendText 400 ''Invalid redirect URL'', d1, out))
            | Inl err \<Rightarrow>
                (if truthy given then (Redirect given, d, out @ [LogRedirectError err])
                 else (SendText 400 ''Invalid redirect'', d, out @ [LogRedirectError err]))))"

text \<open>The image of the pixel endpoint, decoded from the literal in the source.\<close>

definition pixel :: "byte list" where
  "pixel = base64_decode
     ''iVBORw0KGgoAAAANSUhEUgAAAAEAAAABCAYAAAAfFcSJAAAADUlEQVR42mP8/5+hHgAHggJ/PchI7wAAAABJRU5ErkJggg==''"

definition pixelResponse :: response where
  "pixelResponse =
     Send 200
       [(''Content-Type'', ''image/png''),
        (''Content-Length'', show_nat (length pixel)),
        (''Cache-Control'', ''no-cache, no-store, must-revalidate''),
        (''Pragma'', ''no-cache''),
        (''Expires'', ''0'')]
       pixel"

text \<open>
  \<open>GET /o.png?id=...\<close>. \<open>idq\<close> is the query parameter when it is given. With a
  token that is not empty the open is recorded inside \<open>try\<close>; an error is logged. The
  image is sent after that, whatever happened.
\<close>

definition pixelHandler ::
  "'db prisma \<Rightarrow> int \<Rightarrow> string option \<Rightarrow> 'db \<times> log_entry list
     \<Rightarrow> response \<times> 'db \<times> log_entry list" where
  "pixelHandler client now idq st =
     (case st of (d, out) \<Rightarrow>
        (case idq of
           None \<Rightarrow> (pixelResponse, d, out)
         | Some t \<Rightarrow>
             if t = [] then (pixelResponse, d, out)
             else
               (case recordEvent client t (no_patch\<lparr>set_openedAt := Some now\<rparr>) d of
                  Inr (originalUrl, d1) \<Rightarrow> (pixelResponse, d1, out)
                | Inl err \<Rightarrow> (pixelResponse, d, out @ [LogOpenError err]))))"


section \<open>Example data\<close>

text \<open>Concrete jobs, worlds and rows on which the theorems below are evaluated.\<close>

definition exampleJob :: emailJob where
  "exampleJob = \<lparr>job_leadId = 7, job_campaignLeadId = 3, job_campaignStepId = 1,
           job_emailData = Some \<lparr>to = ''a@b.c'', subject = ''Hi'', content = Some ''Hello''\<rparr>,
           job_timestamp = 900\<rparr>"

definition emptyJob :: emailJob where
  "emptyJob = \<lparr>job_leadId = 7, job_campaignLeadId = 3, job_campaignStepId = 1,
           job_emailData = None, job_timestamp = 900\<rparr>"

definition exampleWorld :: "memDb world" where
  "exampleWorld = \<lparr>clock = 1000, rateLimiter = \<lparr>limit = 80, sent = 2, resetTime = 60000\<rparr>,
             db = \<lparr>sendEvents = [], leads = [], campaignLeads = [(3, 0)]\<rparr>, console = []\<rparr>"

text \<open>A world whose window ended at 60000, with five sends counted, seen at 70000.\<close>

definition staleWorld :: "memDb world" where
  "staleWorld = \<lparr>clock = 70000, rateLimiter = \<lparr>limit = 80, sent = 5, resetTime = 60000\<rparr>,
             db = \<lparr>sendEvents = [], leads = [], campaignLeads = [(3, 0)]\<rparr>, console = []\<rparr>"

definition noReading :: error where
  "noReading = Error ''Cannot read properties of undefined (reading 'to')'' ''TypeError''"

definition dbDown :: error where
  "dbDown = Error ''Can't reach database server'' ''PrismaClientInitializationError''"

definition brokenPrisma :: "memDb prisma" where
  "brokenPrisma = memPrisma\<lparr>sendEvent_create := \<lambda>data d. Inl dbDown\<rparr>"

definition exampleRow :: sendEvent where
  "exampleRow = newRow 1 \<lparr>eventType = SENT, leadId = 7, campaignLeadId = 3, campaignStepId = 1,
       sentAt = 1500, errorMessage = None,
       metadata = \<lparr>meta_messageId = Some ''m1'', meta_rateLimitCount = Some 1,
                   meta_processingTime = 600, meta_error = None\<rparr>\<rparr>"

definition exampleDb :: memDb where
  "exampleDb = \<lparr>sendEvents = [exampleRow], leads = [(7, ''NEW'', 0)], campaignLeads = [(3, 0)]\<rparr>"

definition openedJob :: webhookJob where
  "openedJob = \<lparr>wh_type = ''email_opened'',
                wh_data = Some \<lparr>wh_messageId = ''m1'', wh_timestamp = 2000, wh_reason = None\<rparr>\<rparr>"

definition exampleData :: trackingData where
  "exampleData = \<lparr>td_leadId = 7, td_campaignLeadId = 3, td_campaignStepId = 1,
                   td_originalUrl = Some (js ''https://example.com/a?b=1'')\<rparr>"


section \<open>Properties of the rate limiter\<close>

lemma canSend_open: "now < resetTime rl \<Longrightarrow> canSend now rl = (sent rl < limit rl, rl)"
  by (simp add: canSend_def)

lemma sendRounds_fixed:
  "now < resetTime rl \<Longrightarrow> 0 \<le> sent rl \<Longrightarrow> sent rl \<le> limit rl \<Longrightarrow>
   sendRounds k now rl =
     (map (\<lambda>i. sent rl + int i < limit rl) [0..<k], rl\<lparr>sent := min (sent rl + int k) (limit rl)\<rparr>)"
proof (induction k arbitrary: rl)
  case 0
  then show ?case by simp
next
  case (Suc k)
  show ?case
  proof (cases "sent rl < limit rl")
    case True
    let ?rl1 = "incrementSent rl"
    have r: "sendRound now rl = (True, ?rl1)"
      using Suc.prems True by (simp add: sendRound_def canSend_open)
    have p: "now < resetTime ?rl1" "0 \<le> sent ?rl1" "sent ?rl1 \<le> limit ?rl1"
      using Suc.prems True by (simp_all add: incrementSent_def)
    have m: "map (\<lambda>i. sent rl + int i < limit rl) [0..<Suc k] =
             True # map (\<lambda>i. sent ?rl1 + int i < limit ?rl1) [0..<k]"
      using True by (simp add: upt_conv_Cons map_Suc_upt [symmetric] incrementSent_def add.assoc del: upt_Suc)
    show ?thesis
      unfolding m using r Suc.IH [OF p]
      by (simp add: incrementSent_def add.commute add.left_commute del: upt_Suc)
  next
    case False
    have r: "sendRound now rl = (False, rl)"
      using Suc.prems False by (simp add: sendRound_def canSend_open)
    have m: "map (\<lambda>i. sent rl + int i < limit rl) [0..<Suc k] =
             False # map (\<lambda>i. sent rl + int i < limit rl) [0..<k]"
      using False by (simp add: upt_conv_Cons map_Suc_upt [symmetric] del: upt_Suc)
    have e: "sent rl = limit rl" using False Suc.prems by simp
    show ?thesis
      unfolding m using r Suc.IH [OF Suc.prems] e
      by (simp del: upt_Suc)
  qed
qed

text \<open>
  Claim C1, as the code has it. In a fresh window of capacity \<open>N \<ge> 1\<close> and at an instant
  before the window ends, \<open>k\<close> rounds of \<open>canSend\<close> followed by \<open>incrementSent\<close> on
  a positive answer give the answer true in exactly the first \<open>N\<close> rounds and false in
  all later ones; the counter stands at \<open>min k N\<close> afterwards and nothing else of the
  limiter has changed, so the refused rounds leave the state as it was.
\<close>

theorem sendRounds_fresh_window:
  "1 \<le> N \<Longrightarrow> now < t0 + 60000 \<Longrightarrow>
   sendRounds k now (RateLimiter_new N t0) =
     (map (\<lambda>i. int i < N) [0..<k], (RateLimiter_new N t0)\<lparr>sent := min (int k) N\<rparr>)"
  using sendRounds_fixed [of now "RateLimiter_new N t0" k]
  by (simp add: RateLimiter_new_def)

theorem sendRounds_fresh_window_witness:
  "(1::int) \<le> 2 \<and> (5::int) < 0 + 60000 \<and>
   sendRounds 3 5 (RateLimiter_new 2 0) = ([True, True, False], \<lparr>limit = 2, sent = 2, resetTime = 60000\<rparr>)"
  using sendRounds_fresh_window [of 2 5 0 3]
  by (simp add: RateLimiter_new_def upt_rec)

text \<open>
  Claim C1 as stated fails for \<open>canSend\<close> itself: the call does not count. With capacity 1
  the first call answers true and leaves \<open>sent\<close> at 0, and so the second call, at the same
  instant, answers true again.
\<close>

theorem canSend_twice_counterexample:
  "fst (canSend 0 (RateLimiter_new 1 0)) \<and>
   sent (snd (canSend 0 (RateLimiter_new 1 0))) = 0 \<and>
   fst (canSend 0 (snd (canSend 0 (RateLimiter_new 1 0))))"
  by (simp add: canSend_def RateLimiter_new_def)

text \<open>
  Claim C7. Once the window has ended (\<open>resetTime \<le> now\<close>, however long ago), the next
  \<open>canSend\<close> sets the counter to exactly 0 and starts a new window at \<open>now\<close> (it ends at
  \<open>now + 60000\<close>) in the same call, and it answers true whenever the limit is at least 1,
  whatever the counter was before. The new state does not depend on the old counter or
  on the time that has passed, so no unused capacity is carried over.
\<close>

theorem canSend_rollover:
  "resetTime rl \<le> now \<Longrightarrow> 1 \<le> limit rl \<Longrightarrow>
   canSend now rl = (True, rl\<lparr>sent := 0, resetTime := now + 60000\<rparr>)"
  by (simp add: canSend_def)

theorem canSend_rollover_witness:
  "resetTime \<lparr>limit = 2, sent = 2, resetTime = 60000\<rparr> \<le> 200000 \<and>
   1 \<le> limit \<lparr>limit = 2, sent = 2, resetTime = 60000\<rparr> \<and>
   canSend 200000 \<lparr>limit = 2, sent = 2, resetTime = 60000\<rparr> =
     (True, \<lparr>limit = 2, sent = 0, resetTime = 260000\<rparr>)"
  using canSend_rollover [of "\<lparr>limit = 2, sent = 2, resetTime = 60000\<rparr>" 200000]
  by simp

lemma limiter_calls_paused:
  "limit rl = 0 \<Longrightarrow> 0 \<le> sent rl \<Longrightarrow> b \<in> set (fst (limiter_calls cs rl)) \<Longrightarrow> \<not> b"
proof (induction cs rl rule: limiter_calls.induct)
  case (1 rl)
  then show ?case by simp
next
  case (2 now cs rl)
  obtain b1 rl1 where c: "canSend now rl = (b1, rl1)" by (cases "canSend now rl")
  have "\<not> b1" "limit rl1 = 0" "0 \<le> sent rl1"
    using c "2.prems"(1,2) by (auto simp: canSend_def split: if_splits)
  then show ?case using 2 c by (auto split: prod.splits)
next
  case (3 cs rl)
  then show ?case by (simp add: incrementSent_def)
qed

text \<open>
  Claim C8. A limiter constructed with limit 0 answers false to every \<open>canSend\<close>, at
  every instant and after any sequence of earlier calls of its two methods.
\<close>

theorem capacity_zero_never_sends:
  "\<forall>b \<in> set (fst (limiter_calls cs (RateLimiter_new 0 t0))). \<not> b"
  using limiter_calls_paused [of "RateLimiter_new 0 t0" _ cs]
  by (auto simp: RateLimiter_new_def)

theorem capacity_zero_never_sends_witness:
  "fst (limiter_calls [CanSend 5, IncrementSent, CanSend 70000, CanSend 500000] (RateLimiter_new 0 0))
     = [False, False, False]"
  using capacity_zero_never_sends [of "[CanSend 5, IncrementSent, CanSend 70000, CanSend 500000]" 0]
  by (simp add: canSend_def RateLimiter_new_def incrementSent_def)

section \<open>Properties of the email job\<close>

lemma waitForSlot_pass:
  "canSend (clock w) (rateLimiter w) = (True, rl) \<Longrightarrow> waitForSlot w = Some (w\<lparr>rateLimiter := rl\<rparr>)"
  by (subst waitForSlot.simps) simp

lemma waitForSlot_wait:
  "canSend (clock w) (rateLimiter w) = (False, rl) \<Longrightarrow>
   waitForSlot w = waitForSlot (w\<lparr>clock := clock w + 1000, rateLimiter := rl,
                 console := console w @ [LogRateLimitReached (resetTime rl - clock w)]\<rparr>)"
  by (subst waitForSlot.simps) simp

text \<open>
  With a limit of at least 1 the polling loop returns: the distance of the clock to the
  end of the window shrinks with every round, and the round after the end of the
  window passes. The loop changes neither the database nor the limit, and it leaves the
  counter below the limit.
\<close>

lemma waitForSlot_returns_aux:
  "nat (resetTime (rateLimiter w) - clock w) = n \<Longrightarrow> 1 \<le> limit (rateLimiter w) \<Longrightarrow>
   \<exists>w'. waitForSlot w = Some w' \<and> db w' = db w \<and> limit (rateLimiter w') = limit (rateLimiter w) \<and>
        sent (rateLimiter w') < limit (rateLimiter w') \<and> clock w \<le> clock w'"
proof (induction n arbitrary: w rule: less_induct)
  case (less n)
  obtain ok rl where c: "canSend (clock w) (rateLimiter w) = (ok, rl)"
    by (cases "canSend (clock w) (rateLimiter w)")
  show ?case
  proof (cases ok)
    case True
    have "sent rl < limit rl" "limit rl = limit (rateLimiter w)"
      using c True by (auto simp: canSend_def Let_def split: if_splits)
    then show ?thesis using waitForSlot_pass [of w rl] c True by simp
  next
    case False
    let ?w1 = "w\<lparr>clock := clock w + 1000, rateLimiter := rl,
                 console := console w @ [LogRateLimitReached (resetTime rl - clock w)]\<rparr>"
    have open_: "clock w < resetTime (rateLimiter w)" and same: "rl = rateLimiter w"
      using c False less.prems(2) by (auto simp: canSend_def Let_def split: if_splits)
    have m: "nat (resetTime (rateLimiter ?w1) - clock ?w1) < n"
      using open_ same less.prems(1) by simp
    have l: "1 \<le> limit (rateLimiter ?w1)" using same less.prems(2) by simp
    from less.IH [OF m refl l] obtain w' where
      "waitForSlot ?w1 = Some w'" "db w' = db ?w1" "limit (rateLimiter w') = limit (rateLimiter ?w1)"
      "sent (rateLimiter w') < limit (rateLimiter w')" "clock ?w1 \<le> clock w'"
      by blast
    then show ?thesis using waitForSlot_wait [of w rl] c False same by simp
  qed
qed

lemma waitForSlot_returns:
  "1 \<le> limit (rateLimiter w) \<Longrightarrow>
   \<exists>w'. waitForSlot w = Some w' \<and> db w' = db w \<and> limit (rateLimiter w') = limit (rateLimiter w) \<and>
        sent (rateLimiter w') < limit (rateLimiter w') \<and> clock w \<le> clock w'"
  using waitForSlot_returns_aux [OF refl] .

text \<open>
  With a limit of 0 (or below) the loop never returns: the job waits for ever and
  nothing is sent.
\<close>

lemma waitForSlot_blocked:
  assumes "waitForSlot w = Some w'"
  shows "sent (rateLimiter w) < 0 \<or> 0 < limit (rateLimiter w)"
proof (rule waitForSlot.raw_induct [where P = "\<lambda>w w'. sent (rateLimiter w) < 0 \<or> 0 < limit (rateLimiter w)",
        OF _ assms])
  fix f :: "'a world \<Rightarrow> 'a world option" and w w' :: "'a world"
  assume ih: "\<And>w w'. f w = Some w' \<Longrightarrow> sent (rateLimiter w) < 0 \<or> 0 < limit (rateLimiter w)"
    and step: "(case canSend (clock w) (rateLimiter w) of
        (ok, rl) \<Rightarrow>
          if ok then Some (w\<lparr>rateLimiter := rl\<rparr>)
          else f (w\<lparr>clock := clock w + 1000, rateLimiter := rl,
                 console := console w @ [LogRateLimitReached (resetTime rl - clock w)]\<rparr>)) = Some w'"
  obtain ok rl where c: "canSend (clock w) (rateLimiter w) = (ok, rl)"
    by (cases "canSend (clock w) (rateLimiter w)")
  show "sent (rateLimiter w) < 0 \<or> 0 < limit (rateLimiter w)"
  proof (cases ok)
    case True
    then show ?thesis using c by (auto simp: canSend_def Let_def split: if_splits)
  next
    case False
    then have "f (w\<lparr>clock := clock w + 1000, rateLimiter := rl,
                 console := console w @ [LogRateLimitReached (resetTime rl - clock w)]\<rparr>) = Some w'"
      using step c by simp
    from ih [OF this] have "sent rl < 0 \<or> 0 < limit rl" by simp
    then show ?thesis using c False by (auto simp: canSend_def Let_def split: if_splits)
  qed
qed

lemma waitForSlot_paused:
  "limit (rateLimiter w) \<le> 0 \<Longrightarrow> 0 \<le> sent (rateLimiter w) \<Longrightarrow> waitForSlot w = None"
  using waitForSlot_blocked [of w] by (cases "waitForSlot w") auto

lemma example_gate: "waitForSlot (jobStart exampleJob exampleWorld) = Some (jobStart exampleJob exampleWorld)"
  using waitForSlot_pass [of "jobStart exampleJob exampleWorld" "\<lparr>limit = 80, sent = 2, resetTime = 60000\<rparr>"]
  by (simp add: jobStart_def exampleWorld_def canSend_def)

lemma empty_gate: "waitForSlot (jobStart emptyJob exampleWorld) = Some (jobStart emptyJob exampleWorld)"
  using waitForSlot_pass [of "jobStart emptyJob exampleWorld" "\<lparr>limit = 80, sent = 2, resetTime = 60000\<rparr>"]
  by (simp add: jobStart_def exampleWorld_def canSend_def)

lemma empty_raises:
  "sendEmail ''x7'' (job_emailData emptyJob) (clock (jobStart emptyJob exampleWorld)) = (Inl noReading, 1000, [])"
  by (simp add: sendEmail_def emptyJob_def jobStart_def exampleWorld_def noReading_def)

text \<open>
  Claim C4. When the polling loop has returned and the deliverer raises \<open>err\<close>, the job
  builds a FAILED event whose \<open>errorMessage\<close> is the message of \<open>err\<close> and asks the
  store to create it. If the store creates it, the job ends by throwing \<open>err\<close> with the
  new row in the database; if the store fails with \<open>dbError\<close>, that error is written to
  the console, the database stays as it was, and the job still ends by throwing \<open>err\<close>.
\<close>

theorem deliverer_raises:
  assumes gate: "waitForSlot (jobStart job w) = Some wg"
    and raised: "deliver (job_emailData job) (clock wg) = (Inl err, t, out)"
  shows "let wc = wg\<lparr>clock := t, console := console wg @ out @ [LogJobFailed (job_leadId job) err]\<rparr>;
             failed = failedData job err wc
         in eventType failed = FAILED \<and> errorMessage failed = Some (message err) \<and>
            (case sendEvent_create client failed (db wg) of
               Inr (i, d1) \<Rightarrow> processEmailJob deliver client job w = Some (Inl err, wc\<lparr>db := d1\<rparr>)
             | Inl dbError \<Rightarrow>
                 processEmailJob deliver client job w =
                   Some (Inl err, wc\<lparr>console := console wc @ [LogRecordFailed dbError]\<rparr>))"
  using gate raised
  by (simp add: processEmailJob_def sendAndRecord_def recordFailure_def failedData_def Let_def
           split: sum.splits prod.splits)

theorem deliverer_raises_witness:
  "waitForSlot (jobStart emptyJob exampleWorld) = Some (jobStart emptyJob exampleWorld) \<and>
   sendEmail ''x7'' (job_emailData emptyJob) (clock (jobStart emptyJob exampleWorld)) = (Inl noReading, 1000, []) \<and>
   map_option fst (processEmailJob (sendEmail ''x7'') memPrisma emptyJob exampleWorld) = Some (Inl noReading) \<and>
   map_option (\<lambda>r. map (\<lambda>e. (eventType e, errorMessage e)) (sendEvents (db (snd r))))
     (processEmailJob (sendEmail ''x7'') memPrisma emptyJob exampleWorld) =
     Some [(FAILED, Some ''Cannot read properties of undefined (reading 'to')'')] \<and>
   map_option fst (processEmailJob (sendEmail ''x7'') brokenPrisma emptyJob exampleWorld) = Some (Inl noReading) \<and>
   map_option (\<lambda>r. (sendEvents (db (snd r)), last (console (snd r))))
     (processEmailJob (sendEmail ''x7'') brokenPrisma emptyJob exampleWorld) =
     Some ([], LogRecordFailed dbDown)"
proof -
  have ok: "processEmailJob (sendEmail ''x7'') memPrisma emptyJob exampleWorld =
      Some (Inl noReading,
        (jobStart emptyJob exampleWorld)\<lparr>clock := 1000,
           console := console (jobStart emptyJob exampleWorld) @ [] @ [LogJobFailed (job_leadId emptyJob) noReading],
           db := \<lparr>sendEvents = [newRow 1 (failedData emptyJob noReading
                     ((jobStart emptyJob exampleWorld)\<lparr>clock := 1000,
                        console := console (jobStart emptyJob exampleWorld) @ [] @
                                   [LogJobFailed (job_leadId emptyJob) noReading]\<rparr>))],
                  leads = [], campaignLeads = [(3, 0)]\<rparr>\<rparr>)"
    using deliverer_raises [where deliver = "sendEmail ''x7''" and client = memPrisma, OF empty_gate empty_raises]
    by (simp add: Let_def memPrisma_def mem_create_def jobStart_def exampleWorld_def)
  have broken: "processEmailJob (sendEmail ''x7'') brokenPrisma emptyJob exampleWorld =
      Some (Inl noReading,
        (jobStart emptyJob exampleWorld)\<lparr>clock := 1000,
           console := (console (jobStart emptyJob exampleWorld) @ [] @
                      [LogJobFailed (job_leadId emptyJob) noReading]) @ [LogRecordFailed dbDown]\<rparr>)"
    using deliverer_raises [where deliver = "sendEmail ''x7''" and client = brokenPrisma, OF empty_gate empty_raises]
    by (simp add: Let_def memPrisma_def brokenPrisma_def)
  have c3: "map_option fst (processEmailJob (sendEmail ''x7'') memPrisma emptyJob exampleWorld) = Some (Inl noReading)"
    unfolding ok by simp
  have c4: "map_option (\<lambda>r. map (\<lambda>e. (eventType e, errorMessage e)) (sendEvents (db (snd r))))
     (processEmailJob (sendEmail ''x7'') memPrisma emptyJob exampleWorld) =
     Some [(FAILED, Some ''Cannot read properties of undefined (reading 'to')'')]"
    unfolding ok by (simp add: failedData_def newRow_def noReading_def)
  have c5: "map_option fst (processEmailJob (sendEmail ''x7'') brokenPrisma emptyJob exampleWorld) = Some (Inl noReading)"
    unfolding broken by simp
  have c6: "map_option (\<lambda>r. (sendEvents (db (snd r)), last (console (snd r))))
     (processEmailJob (sendEmail ''x7'') brokenPrisma emptyJob exampleWorld) =
     Some ([], LogRecordFailed dbDown)"
    unfolding broken by (simp add: jobStart_def exampleWorld_def)
  show ?thesis
    using empty_gate empty_raises c3 c4 c5 c6 by blast
qed

lemma show_int_1500: "show_int 1500 = ''1500''"
  by code_simp

lemma example_sends:
  "sendEmail ''x7'' (job_emailData exampleJob) (clock (jobStart exampleJob exampleWorld)) =
     (Inr \<lparr>success = True, messageId = ''msg-1500-x7'', timestamp = Some 1500, errorText = None\<rparr>,
      1500, [LogSendingTo ''a@b.c'', LogSubject ''Hi'', LogContent ''Hello''])"
  by (simp add: sendEmail_def exampleJob_def jobStart_def exampleWorld_def show_int_1500)

text \<open>
  The polling loop either leaves the limiter as it found it or returns in a window that
  it has just started, with the counter at 0.
\<close>

lemma waitForSlot_limiter:
  assumes "waitForSlot w = Some wg"
  shows "rateLimiter wg = rateLimiter w \<or> sent (rateLimiter wg) = 0"
proof (rule waitForSlot.raw_induct [where P = "\<lambda>w wg. rateLimiter wg = rateLimiter w \<or> sent (rateLimiter wg) = 0",
        OF _ assms])
  fix f :: "'a world \<Rightarrow> 'a world option" and w wg :: "'a world"
  assume ih: "\<And>w wg. f w = Some wg \<Longrightarrow> rateLimiter wg = rateLimiter w \<or> sent (rateLimiter wg) = 0"
    and step: "(case canSend (clock w) (rateLimiter w) of
        (ok, rl) \<Rightarrow>
          if ok then Some (w\<lparr>rateLimiter := rl\<rparr>)
          else f (w\<lparr>clock := clock w + 1000, rateLimiter := rl,
                 console := console w @ [LogRateLimitReached (resetTime rl - clock w)]\<rparr>)) = Some wg"
  obtain ok rl where c: "canSend (clock w) (rateLimiter w) = (ok, rl)"
    by (cases "canSend (clock w) (rateLimiter w)")
  have rl: "rl = rateLimiter w \<or> sent rl = 0"
    using c by (auto simp: canSend_def Let_def split: if_splits)
  show "rateLimiter wg = rateLimiter w \<or> sent (rateLimiter wg) = 0"
  proof (cases ok)
    case True
    then have "wg = w\<lparr>rateLimiter := rl\<rparr>" using step c by simp
    then show ?thesis using rl by auto
  next
    case False
    then have "f (w\<lparr>clock := clock w + 1000, rateLimiter := rl,
                 console := console w @ [LogRateLimitReached (resetTime rl - clock w)]\<rparr>) = Some wg"
      using step c by simp
    from ih [OF this] have "rateLimiter wg = rl \<or> sent (rateLimiter wg) = 0" by simp
    then show ?thesis using rl by auto
  qed
qed

lemma stale_gate:
  "waitForSlot (jobStart emptyJob staleWorld) =
     Some ((jobStart emptyJob staleWorld)\<lparr>rateLimiter := \<lparr>limit = 80, sent = 0, resetTime = 130000\<rparr>\<rparr>)"
  using waitForSlot_pass [of "jobStart emptyJob staleWorld" "\<lparr>limit = 80, sent = 0, resetTime = 130000\<rparr>"]
  by (simp add: jobStart_def staleWorld_def canSend_def)

lemma stale_raises:
  "sendEmail ''x7'' (job_emailData emptyJob) 70000 = (Inl noReading, 70000, [])"
  by (simp add: sendEmail_def emptyJob_def noReading_def)

text \<open>
  Claim C10, as the code has it. The counter of the limiter is incremented between the
  return of the deliverer and the first write to the store, and nowhere else in the
  job: when the deliverer returns, with whatever \<open>success\<close>, the job ends with the
  limiter that the polling loop left, incremented once. When the deliverer raises, the
  job ends with the limiter exactly as the polling loop left it (\<open>wg\<close>), so the failed
  attempt counts nothing; that limiter is the one from before the job, or one whose
  window the polling has started anew with the counter at 0. If the window was open and
  below its limit when the job started, it is the limiter from before the job.
\<close>

theorem failed_delivery_keeps_count:
  assumes gate: "waitForSlot (jobStart job w) = Some wg"
  shows "(case deliver (job_emailData job) (clock wg) of
            (Inl err, t, out) \<Rightarrow>
               (\<exists>w'. processEmailJob deliver client job w = Some (Inl err, w') \<and>
                     rateLimiter w' = rateLimiter wg \<and>
                     (rateLimiter w' = rateLimiter w \<or> sent (rateLimiter w') = 0) \<and>
                     (clock w < resetTime (rateLimiter w) \<and> sent (rateLimiter w) < limit (rateLimiter w)
                        \<longrightarrow> rateLimiter w' = rateLimiter w))
          | (Inr result, t, out) \<Rightarrow>
               (\<exists>res w'. processEmailJob deliver client job w = Some (res, w') \<and>
                     rateLimiter w' = incrementSent (rateLimiter wg)))"
proof -
  have imm: "rateLimiter wg = rateLimiter w"
    if "clock w < resetTime (rateLimiter w)" "sent (rateLimiter w) < limit (rateLimiter w)"
  proof -
    have "canSend (clock (jobStart job w)) (rateLimiter (jobStart job w)) = (True, rateLimiter w)"
      using that by (simp add: canSend_def jobStart_def)
    from waitForSlot_pass [OF this] gate show ?thesis by (auto simp: jobStart_def)
  qed
  have alt: "rateLimiter wg = rateLimiter w \<or> sent (rateLimiter wg) = 0"
    using waitForSlot_limiter [OF gate] by (simp add: jobStart_def)
  show ?thesis
    using gate imm alt
    by (auto simp add: processEmailJob_def sendAndRecord_def recordFailure_def Let_def
           split: sum.splits prod.splits)
qed

theorem failed_delivery_keeps_count_witness:
  "waitForSlot (jobStart emptyJob exampleWorld) = Some (jobStart emptyJob exampleWorld) \<and>
   clock exampleWorld < resetTime (rateLimiter exampleWorld) \<and>
   sent (rateLimiter exampleWorld) < limit (rateLimiter exampleWorld) \<and>
   (\<exists>w'. processEmailJob (sendEmail ''x7'') memPrisma emptyJob exampleWorld = Some (Inl noReading, w') \<and>
         rateLimiter w' = \<lparr>limit = 80, sent = 2, resetTime = 60000\<rparr>) \<and>
   (\<exists>res w'. processEmailJob (sendEmail ''x7'') memPrisma exampleJob exampleWorld = Some (res, w') \<and>
         rateLimiter w' = \<lparr>limit = 80, sent = 3, resetTime = 60000\<rparr>)"
proof -
  have "\<exists>w'. processEmailJob (sendEmail ''x7'') memPrisma emptyJob exampleWorld = Some (Inl noReading, w') \<and>
         rateLimiter w' = rateLimiter (jobStart emptyJob exampleWorld)"
    using failed_delivery_keeps_count [where deliver = "sendEmail ''x7''" and client = memPrisma, OF empty_gate]
    by (auto simp: empty_raises)
  then have a: "\<exists>w'. processEmailJob (sendEmail ''x7'') memPrisma emptyJob exampleWorld = Some (Inl noReading, w') \<and>
         rateLimiter w' = \<lparr>limit = 80, sent = 2, resetTime = 60000\<rparr>"
    by (simp add: jobStart_def exampleWorld_def)
  have "\<exists>res w'. processEmailJob (sendEmail ''x7'') memPrisma exampleJob exampleWorld = Some (res, w') \<and>
         rateLimiter w' = incrementSent (rateLimiter (jobStart exampleJob exampleWorld))"
    using failed_delivery_keeps_count [where deliver = "sendEmail ''x7''" and client = memPrisma, OF example_gate]
    by (auto simp: example_sends)
  then have b: "\<exists>res w'. processEmailJob (sendEmail ''x7'') memPrisma exampleJob exampleWorld = Some (res, w') \<and>
         rateLimiter w' = \<lparr>limit = 80, sent = 3, resetTime = 60000\<rparr>"
    by (simp add: jobStart_def exampleWorld_def incrementSent_def)
  have "clock exampleWorld < resetTime (rateLimiter exampleWorld)"
    "sent (rateLimiter exampleWorld) < limit (rateLimiter exampleWorld)"
    by (simp_all add: exampleWorld_def)
  then show ?thesis
    using a b empty_gate by blast
qed

text \<open>
  Claim C10 as stated fails where it says that a failed attempt leaves the count
  unchanged. The window of the limiter ended at 60000 with five sends counted; a job
  that starts at 70000 polls \<open>canSend\<close>, which starts a new window with the counter at
  0, and then its deliverer raises: the job ends by throwing, with the count at 0 and
  not at 5.
\<close>

theorem rollover_before_failure_counterexample:
  "sent (rateLimiter staleWorld) = 5 \<and>
   map_option (\<lambda>r. (fst r, sent (rateLimiter (snd r))))
     (processEmailJob (sendEmail ''x7'') memPrisma emptyJob staleWorld) = Some (Inl noReading, 0)"
  apply (simp add: processEmailJob_def stale_gate sendAndRecord_def stale_raises)
  apply (simp add: stale_raises recordFailure_def memPrisma_def mem_create_def staleWorld_def jobStart_def Let_def)
  done

text \<open>
  Claim C5, as the code has it. The two updates that mark the lead as contacted (of the
  campaign lead, then of the lead) are made only when the deliverer has returned a
  result with \<open>success\<close>: when it raises or reports no success, the job does not depend
  on what these updates would do. When the deliverer reports success, the event is
  created and one of the two updates fails with \<open>err\<close> (the first, or the second after
  the first has succeeded), the job does not undo the created event; it handles \<open>err\<close>
  like any error of the job: \<open>err\<close> is written to the console, a further FAILED event
  is handed to the store (the database ends as that call leaves it, or as it was before
  when the call fails), and \<open>err\<close> is thrown to the caller.
\<close>

theorem lead_update_on_success_only:
  assumes gate: "waitForSlot (jobStart job w) = Some wg"
  shows "((case fst (deliver (job_emailData job) (clock wg)) of
              Inl e \<Rightarrow> True | Inr r \<Rightarrow> \<not> success r) \<longrightarrow>
            processEmailJob deliver (client\<lparr>campaignLead_update := g, lead_update := f\<rparr>) job w =
            processEmailJob deliver client job w) \<and>
         (deliver (job_emailData job) (clock wg) = (Inr result, t, out) \<and> success result \<and>
            sendEvent_create client
              (sentData job result (wg\<lparr>clock := t, console := console wg @ out,
                                       rateLimiter := incrementSent (rateLimiter wg)\<rparr>)) (db wg) = Inr (i, d1) \<and>
            campaignLead_update client (job_campaignLeadId job) t d1 = Inl err \<longrightarrow>
            (\<exists>w'. processEmailJob deliver client job w = Some (Inl err, w') \<and>
                  LogJobFailed (job_leadId job) err \<in> set (console w') \<and>
                  (case sendEvent_create client (failedData job err
                          (wg\<lparr>clock := t, console := console wg @ out @
                                 [LogEmailSent i, LogJobFailed (job_leadId job) err],
                               rateLimiter := incrementSent (rateLimiter wg), db := d1\<rparr>)) d1 of
                     Inr (k, d3) \<Rightarrow> db w' = d3
                   | Inl dbError \<Rightarrow> db w' = d1))) \<and>
         (deliver (job_emailData job) (clock wg) = (Inr result, t, out) \<and> success result \<and>
            sendEvent_create client
              (sentData job result (wg\<lparr>clock := t, console := console wg @ out,
                                       rateLimiter := incrementSent (rateLimiter wg)\<rparr>)) (db wg) = Inr (i, d1) \<and>
            campaignLead_update client (job_campaignLeadId job) t d1 = Inr d2 \<and>
            lead_update client (job_leadId job) ''CONTACTED'' t d2 = Inl err \<longrightarrow>
            (\<exists>w'. processEmailJob deliver client job w = Some (Inl err, w') \<and>
                  LogJobFailed (job_leadId job) err \<in> set (console w') \<and>
                  (case sendEvent_create client (failedData job err
                          (wg\<lparr>clock := t, console := console wg @ out @
                                 [LogEmailSent i, LogJobFailed (job_leadId job) err],
                               rateLimiter := incrementSent (rateLimiter wg), db := d2\<rparr>)) d2 of
                     Inr (k, d3) \<Rightarrow> db w' = d3
                   | Inl dbError \<Rightarrow> db w' = d2)))"
proof (intro conjI impI)
  assume "case fst (deliver (job_emailData job) (clock wg)) of Inl e \<Rightarrow> True | Inr r \<Rightarrow> \<not> success r"
  then show "processEmailJob deliver (client\<lparr>campaignLead_update := g, lead_update := f\<rparr>) job w =
            processEmailJob deliver client job w"
    using gate
    by (auto simp add: processEmailJob_def sendAndRecord_def recordFailure_def Let_def
           split: sum.splits prod.splits)
next
  assume "deliver (job_emailData job) (clock wg) = (Inr result, t, out) \<and> success result \<and>
            sendEvent_create client
              (sentData job result (wg\<lparr>clock := t, console := console wg @ out,
                                       rateLimiter := incrementSent (rateLimiter wg)\<rparr>)) (db wg) = Inr (i, d1) \<and>
            campaignLead_update client (job_campaignLeadId job) t d1 = Inl err"
  then show "\<exists>w'. processEmailJob deliver client job w = Some (Inl err, w') \<and>
                  LogJobFailed (job_leadId job) err \<in> set (console w') \<and>
                  (case sendEvent_create client (failedData job err
                          (wg\<lparr>clock := t, console := console wg @ out @
                                 [LogEmailSent i, LogJobFailed (job_leadId job) err],
                               rateLimiter := incrementSent (rateLimiter wg), db := d1\<rparr>)) d1 of
                     Inr (k, d3) \<Rightarrow> db w' = d3
                   | Inl dbError \<Rightarrow> db w' = d1)"
    using gate
    by (auto simp add: processEmailJob_def sendAndRecord_def recordFailure_def Let_def failedData_def
           split: sum.splits prod.splits)
next
  assume "deliver (job_emailData job) (clock wg) = (Inr result, t, out) \<and> success result \<and>
            sendEvent_create client
              (sentData job result (wg\<lparr>clock := t, console := console wg @ out,
                                       rateLimiter := incrementSent (rateLimiter wg)\<rparr>)) (db wg) = Inr (i, d1) \<and>
            campaignLead_update client (job_campaignLeadId job) t d1 = Inr d2 \<and>
            lead_update client (job_leadId job) ''CONTACTED'' t d2 = Inl err"
  then show "\<exists>w'. processEmailJob deliver client job w = Some (Inl err, w') \<and>
                  LogJobFailed (job_leadId job) err \<in> set (console w') \<and>
                  (case sendEvent_create client (failedData job err
                          (wg\<lparr>clock := t, console := console wg @ out @
                                 [LogEmailSent i, LogJobFailed (job_leadId job) err],
                               rateLimiter := incrementSent (rateLimiter wg), db := d2\<rparr>)) d2 of
                     Inr (k, d3) \<Rightarrow> db w' = d3
                   | Inl dbError \<Rightarrow> db w' = d2)"
    using gate
    by (auto simp add: processEmailJob_def sendAndRecord_def recordFailure_def Let_def failedData_def
           split: sum.splits prod.splits)
qed

theorem lead_update_on_success_only_witness:
  "waitForSlot (jobStart emptyJob exampleWorld) = Some (jobStart emptyJob exampleWorld) \<and>
   waitForSlot (jobStart exampleJob exampleWorld) = Some (jobStart exampleJob exampleWorld) \<and>
   processEmailJob (sendEmail ''x7'')
      (memPrisma\<lparr>campaignLead_update := \<lambda>i t d. Inl dbDown, lead_update := \<lambda>i s t d. Inl dbDown\<rparr>)
      emptyJob exampleWorld =
     processEmailJob (sendEmail ''x7'') memPrisma emptyJob exampleWorld \<and>
   (\<exists>w'. processEmailJob (sendEmail ''x7'') (memPrisma\<lparr>campaignLead_update := \<lambda>i t d. Inl dbDown\<rparr>)
            exampleJob exampleWorld = Some (Inl dbDown, w') \<and>
         LogJobFailed 7 dbDown \<in> set (console w') \<and>
         map eventType (sendEvents (db w')) = [SENT, FAILED]) \<and>
   (\<exists>w'. processEmailJob (sendEmail ''x7'') memPrisma exampleJob exampleWorld = Some (Inl notFound, w') \<and>
         LogJobFailed 7 notFound \<in> set (console w') \<and>
         map eventType (sendEvents (db w')) = [SENT, FAILED])"
proof -
  have a: "processEmailJob (sendEmail ''x7'')
      (memPrisma\<lparr>campaignLead_update := \<lambda>i t d. Inl dbDown, lead_update := \<lambda>i s t d. Inl dbDown\<rparr>)
      emptyJob exampleWorld =
     processEmailJob (sendEmail ''x7'') memPrisma emptyJob exampleWorld"
    using lead_update_on_success_only [where deliver = "sendEmail ''x7''" and client = memPrisma
        and g = "\<lambda>i t d. Inl dbDown" and f = "\<lambda>i s t d. Inl dbDown", OF empty_gate]
    by (simp add: empty_raises)
  let ?res = "\<lparr>success = True, messageId = ''msg-1500-x7'', timestamp = Some 1500, errorText = None\<rparr>"
  let ?out = "[LogSendingTo ''a@b.c'', LogSubject ''Hi'', LogContent ''Hello'']"
  let ?row = "newRow 1 (sentData exampleJob ?res
                ((jobStart exampleJob exampleWorld)\<lparr>clock := 1500,
                    console := console (jobStart exampleJob exampleWorld) @ ?out,
                    rateLimiter := incrementSent (rateLimiter (jobStart exampleJob exampleWorld))\<rparr>))"
  let ?d1 = "\<lparr>sendEvents = [?row], leads = [], campaignLeads = [(3, 0)]\<rparr>"
  let ?d2 = "\<lparr>sendEvents = [?row], leads = [], campaignLeads = [(3, 1500)]\<rparr>"
  have b: "\<exists>w'. processEmailJob (sendEmail ''x7'') memPrisma exampleJob exampleWorld = Some (Inl notFound, w') \<and>
         LogJobFailed 7 notFound \<in> set (console w') \<and>
         map eventType (sendEvents (db w')) = [SENT, FAILED]"
    using lead_update_on_success_only [where deliver = "sendEmail ''x7''" and client = memPrisma
        and result = ?res and t = 1500 and out = ?out and i = 1 and ?d1.0 = ?d1 and ?d2.0 = ?d2
        and err = notFound, OF example_gate]
    unfolding example_sends
    by (auto simp add: memPrisma_def mem_create_def mem_campaignLead_update_def mem_lead_update_def
          jobStart_def exampleWorld_def exampleJob_def newRow_def sentData_def failedData_def)
  have c: "\<exists>w'. processEmailJob (sendEmail ''x7'') (memPrisma\<lparr>campaignLead_update := \<lambda>i t d. Inl dbDown\<rparr>)
            exampleJob exampleWorld = Some (Inl dbDown, w') \<and>
         LogJobFailed 7 dbDown \<in> set (console w') \<and>
         map eventType (sendEvents (db w')) = [SENT, FAILED]"
    using lead_update_on_success_only [where deliver = "sendEmail ''x7''"
        and client = "memPrisma\<lparr>campaignLead_update := \<lambda>i t d. Inl dbDown\<rparr>"
        and result = ?res and t = 1500 and out = ?out and i = 1 and ?d1.0 = ?d1
        and err = dbDown, OF example_gate]
    unfolding example_sends
    by (auto simp add: memPrisma_def mem_create_def
          jobStart_def exampleWorld_def exampleJob_def newRow_def sentData_def failedData_def)
  show ?thesis using a b c empty_gate example_gate by blast
qed

text \<open>
  Claim C5 as stated fails where it says that a failure of the update is not passed on.
  The deliverer succeeds, the SENT event is created, lead 7 does not exist and its
  update fails: the job ends by throwing that error, and the store holds the SENT
  event followed by a FAILED one.
\<close>

theorem lead_update_failure_counterexample:
  "map_option fst (processEmailJob (sendEmail ''x7'') memPrisma exampleJob exampleWorld) = Some (Inl notFound) \<and>
   map_option (\<lambda>r. map eventType (sendEvents (db (snd r))))
      (processEmailJob (sendEmail ''x7'') memPrisma exampleJob exampleWorld) = Some [SENT, FAILED]"
  apply (simp add: processEmailJob_def example_gate sendAndRecord_def example_sends Let_def)
  apply (simp add: recordFailure_def memPrisma_def mem_create_def mem_campaignLead_update_def
        mem_lead_update_def exampleJob_def exampleWorld_def jobStart_def sentData_def failedData_def
        newRow_def Let_def incrementSent_def)
  done

section \<open>Properties of the webhook job\<close>

lemma applyPatch_twice: "applyPatch p (applyPatch p r) = applyPatch p r"
  by (simp add: applyPatch_def split: option.splits)

lemma patchByMessageId_twice: "patchByMessageId m p (patchByMessageId m p d) = patchByMessageId m p d"
  by (simp add: patchByMessageId_def applyPatch_twice)

lemma updateByMessageId_mem:
  "updateByMessageId memPrisma job patch d =
     (case wh_data job of
        None \<Rightarrow> Inl noData
      | Some wd \<Rightarrow> Inr (patchByMessageId (wh_messageId wd) (patch wd) d))"
  by (simp add: updateByMessageId_def memPrisma_def mem_updateMany_def patchByMessageId_def
           split: option.splits)

lemma webhookSwitch_twice:
  "webhookSwitch memPrisma job d = Inr (d1, lines) \<Longrightarrow> webhookSwitch memPrisma job d1 = Inr (d1, lines)"
  unfolding webhookSwitch_def updateByMessageId_mem
  by (auto split: if_splits option.splits simp: patchByMessageId_twice)

lemma webhookSwitch_error:
  "webhookSwitch memPrisma job d = Inl e \<Longrightarrow> webhookSwitch memPrisma job d' = Inl e"
  unfolding webhookSwitch_def updateByMessageId_mem
  by (auto split: if_splits option.splits)

text \<open>
  Claim C6. On the store in memory, a webhook job that is applied to the database its
  first application has produced gives the same result and leaves that database as it
  is: applying a delivered, opened, clicked or bounced callback twice ends in the same
  send events as applying it once. (The same holds for a type that is not known and for
  a job without data, which change nothing.)
\<close>

theorem webhook_twice_same_as_once:
  assumes "processWebhookJob memPrisma job (d, out) = (res, d1, out1)"
  shows "fst (processWebhookJob memPrisma job (d1, out')) = res \<and>
         fst (snd (processWebhookJob memPrisma job (d1, out'))) = d1"
proof (cases "webhookSwitch memPrisma job d")
  case (Inl e)
  then have "d1 = d" "res = Inl e" using assms by (auto simp: processWebhookJob_def Let_def)
  then show ?thesis using webhookSwitch_error [OF Inl, of d] by (simp add: processWebhookJob_def Let_def)
next
  case (Inr p)
  obtain d2 lines where p: "p = (d2, lines)" by (cases p)
  then have "d1 = d2" "res = Inr True" using assms Inr by (auto simp: processWebhookJob_def Let_def)
  then show ?thesis using webhookSwitch_twice [of job d d2 lines] Inr p
    by (simp add: processWebhookJob_def Let_def)
qed

lemma opened_once:
  "processWebhookJob memPrisma openedJob (exampleDb, []) =
     (Inr True, exampleDb\<lparr>sendEvents := [exampleRow\<lparr>openedAt := Some 2000\<rparr>]\<rparr>,
      [LogProcessingWebhook ''email_opened'', LogWebhookProcessed ''email_opened''])"
  by (simp add: processWebhookJob_def webhookSwitch_def updateByMessageId_def memPrisma_def
        mem_updateMany_def openedJob_def exampleDb_def exampleRow_def newRow_def applyPatch_def no_patch_def Let_def)

theorem webhook_twice_same_as_once_witness:
  "processWebhookJob memPrisma openedJob (exampleDb, []) =
     (Inr True, exampleDb\<lparr>sendEvents := [exampleRow\<lparr>openedAt := Some 2000\<rparr>]\<rparr>,
      [LogProcessingWebhook ''email_opened'', LogWebhookProcessed ''email_opened'']) \<and>
   fst (snd (processWebhookJob memPrisma openedJob (exampleDb\<lparr>sendEvents := [exampleRow\<lparr>openedAt := Some 2000\<rparr>]\<rparr>, []))) =
     exampleDb\<lparr>sendEvents := [exampleRow\<lparr>openedAt := Some 2000\<rparr>]\<rparr> \<and>
   eventType (exampleRow\<lparr>openedAt := Some 2000\<rparr>) = SENT"
  using webhook_twice_same_as_once [OF opened_once, of "[]"] opened_once
  by (simp add: exampleRow_def newRow_def)

section \<open>Properties of the codec\<close>

subsection \<open>Base64 decoding inverts encoding\<close>

lemma unat_byte: "unat (b :: byte) < 256"
  using unsigned_less [of b, where 'a = nat] by simp

lemma unat_unit: "unat (u :: jschar) < 65536"
  using unsigned_less [of u, where 'a = nat] by simp

lemma char_eq_code: "(c = d) = ((of_char c :: nat) = of_char d)"
  by simp

lemma base64_char_code:
  "n < 64 \<Longrightarrow> (of_char (base64_char n) :: nat) =
     (if n < 26 then 65 + n else if n < 52 then 71 + n else if n < 62 then n - 4
      else if n = 62 then 43 else 47)"
  by (simp add: base64_char_def)

lemma unbase64_char: "n < 64 \<Longrightarrow> unbase64 (base64_char n) = Some n"
  unfolding unbase64_def Let_def char_eq_code [of _ "CHR ''+''"]
        char_eq_code [of _ "CHR ''-''"] char_eq_code [of _ "CHR ''/''"] char_eq_code [of _ "CHR ''_''"]
  by (simp add: base64_char_code) arith

lemma base64_char_not_pad: "n < 64 \<Longrightarrow> base64_char n \<noteq> CHR ''=''"
  unfolding char_eq_code [of _ "CHR ''=''"]
  by (simp add: base64_char_code) arith

lemma sextet_step:
  "n < 64 \<Longrightarrow> base64_sextets (base64_char n # cs) = n # base64_sextets cs"
  by (simp add: unbase64_char base64_char_not_pad)

lemma sextet_stop: "base64_sextets (CHR ''='' # cs) = []"
  by simp

lemma div_add_small: "y < m \<Longrightarrow> (x * m + y) div m = (x::nat)"
  by simp

lemma mod_add_small: "y < m \<Longrightarrow> (x * m + y) mod m = (y::nat)"
  by simp

lemma byte_parts:
  fixes b :: byte
  shows "unat b div 16 < 16" "unat b div 64 < 4" "unat b div 4 < 64" "unat b mod 4 * 16 < 64"
    "unat b mod 16 * 4 < 64" "unat b mod 64 < 64"
  using unat_byte [of b] by (simp_all add: less_mult_imp_div_less)

lemma group3:
  fixes a b c :: byte
  shows "(word_of_nat (unat a div 4 * 4 + (unat a mod 4 * 16 + unat b div 16) div 16) :: byte) = a"
    and "(word_of_nat ((unat a mod 4 * 16 + unat b div 16) mod 16 * 16 + (unat b mod 16 * 4 + unat c div 64) div 4) :: byte) = b"
    and "(word_of_nat ((unat b mod 16 * 4 + unat c div 64) mod 4 * 64 + unat c mod 64) :: byte) = c"
  by (simp_all add: div_add_small mod_add_small byte_parts)

lemma sextet_bounds:
  fixes a b c :: byte
  shows "unat a mod 4 * 16 + unat b div 16 < 64" "unat b mod 16 * 4 + unat c div 64 < 64"
proof -
  have "unat a mod 4 < 4" "unat b mod 16 < 16" by simp_all
  then show "unat a mod 4 * 16 + unat b div 16 < 64" "unat b mod 16 * 4 + unat c div 64 < 64"
    using byte_parts(1) [of b] byte_parts(2) [of c] by linarith+
qed

lemma group_tail:
  fixes a b :: byte
  shows "(word_of_nat (unat a div 4 * 4 + unat a mod 4 * 16 div 16) :: byte) = a"
    and "(word_of_nat ((unat a mod 4 * 16 + unat b div 16) mod 16 * 16 + unat b mod 16 * 4 div 4) :: byte) = b"
  by (simp_all add: div_add_small mod_add_small byte_parts)

lemma base64_roundtrip: "base64_decode (base64_encode bs) = bs"
proof (induction bs rule: base64_encode.induct)
  case 1
  then show ?case by (simp add: base64_decode_def)
next
  case (2 a)
  show ?case
    by (simp add: base64_decode_def sextet_step sextet_stop byte_parts group_tail
          del: base64_sextets.simps(2))
next
  case (3 a b)
  show ?case
    by (simp add: base64_decode_def sextet_step sextet_stop sextet_bounds byte_parts group3 group_tail
          del: base64_sextets.simps(2))
next
  case (4 a b c bs)
  then show ?case
    by (simp add: base64_decode_def sextet_step sextet_stop sextet_bounds byte_parts group3
          del: base64_sextets.simps(2))
qed

subsection \<open>UTF-8 decoding inverts encoding on well-formed strings\<close>

lemma byte_of_nat: "m < 256 \<Longrightarrow> unat (word_of_nat m :: byte) = m"
  by (simp add: unat_of_nat)

lemma unit_of_nat: "m < 65536 \<Longrightarrow> unat (word_of_nat m :: jschar) = m"
  by (simp add: unat_of_nat)

lemma is_high_nat: "is_high u \<longleftrightarrow> 55296 \<le> unat u \<and> unat u \<le> 56319"
  by (simp add: is_high_def word_le_nat_alt)

lemma is_low_nat: "is_low u \<longleftrightarrow> 56320 \<le> unat u \<and> unat u \<le> 57343"
  by (simp add: is_low_def word_le_nat_alt)

lemma continuation_nat: "continuation b \<longleftrightarrow> 128 \<le> unat b \<and> unat b \<le> 191"
  by (simp add: continuation_def word_le_nat_alt)

lemma byte_eq_nat: "(b = (c :: byte)) = (unat b = unat c)"
  by (simp add: word_unat_eq_iff)

lemma unit_eqI: "unat (u :: jschar) = unat v \<Longrightarrow> u = v"
  by (simp add: word_unat_eq_iff)

lemma second_of_nat:
  "second_of b c \<longleftrightarrow>
     (if unat b = 224 then 160 \<le> unat c \<and> unat c \<le> 191
      else if unat b = 237 then 128 \<le> unat c \<and> unat c \<le> 159
      else if unat b = 240 then 144 \<le> unat c \<and> unat c \<le> 191
      else if unat b = 244 then 128 \<le> unat c \<and> unat c \<le> 143
      else 128 \<le> unat c \<and> unat c \<le> 191)"
  by (simp add: second_of_def continuation_nat word_le_nat_alt byte_eq_nat)

text \<open>The decoder on a first byte of known value.\<close>

lemma decode_ascii:
  "unat b < 128 \<Longrightarrow> utf8_decode (b # bs) = word_of_nat (unat b) # utf8_decode bs"
  by (simp add: word_less_nat_alt)

lemma decode_two:
  "194 \<le> unat b \<Longrightarrow> unat b \<le> 223 \<Longrightarrow> continuation c \<Longrightarrow>
   utf8_decode (b # c # bs) = decode2 b c # utf8_decode bs"
  by (simp add: word_less_nat_alt word_le_nat_alt)

lemma decode_three:
  "224 \<le> unat b \<Longrightarrow> unat b \<le> 239 \<Longrightarrow> second_of b c \<Longrightarrow> continuation d \<Longrightarrow>
   utf8_decode (b # c # d # bs) = decode3 b c d # utf8_decode bs"
  by (simp add: word_less_nat_alt word_le_nat_alt)

lemma decode_four:
  "240 \<le> unat b \<Longrightarrow> unat b \<le> 244 \<Longrightarrow> second_of b c \<Longrightarrow> continuation d \<Longrightarrow> continuation e \<Longrightarrow>
   utf8_decode (b # c # d # e # bs) = decode4 b c d e @ utf8_decode bs"
  by (simp add: word_less_nat_alt word_le_nat_alt)

lemma unit_back: "word_of_nat (unat (u :: jschar)) = u"
  by simp

lemma decode_unit:
  assumes "\<not> is_high u" "\<not> is_low u"
  shows "utf8_decode (encode_unit u @ bs) = u # utf8_decode bs"
proof -
  define n where "n = unat u"
  have n: "n < 65536" unfolding n_def by (rule unat_unit)
  have u: "word_of_nat n = u" unfolding n_def by (rule unit_back)
  have ns: "n < 55296 \<or> 57343 < n" using assms unfolding n_def is_high_nat is_low_nat by linarith
  consider "n < 128" | "128 \<le> n" "n < 2048" | "2048 \<le> n" by linarith
  then show ?thesis
  proof cases
    case 1
    then have e: "encode_unit u = [word_of_nat n]"
      by (simp only: encode_unit_def Let_def n_def if_True)
    have b: "unat (word_of_nat n :: byte) = n" by (rule byte_of_nat) (use 1 in linarith)
    have "utf8_decode (word_of_nat n # bs) = word_of_nat (unat (word_of_nat n :: byte)) # utf8_decode bs"
      using 1 b by (intro decode_ascii) simp
    then show ?thesis by (simp only: e b u append_Cons append_Nil)
  next
    case 2
    define q r where "q = n div 64" and "r = n mod 64"
    have qr: "n = q * 64 + r" "r < 64" unfolding q_def r_def by simp_all
    have q: "2 \<le> q" "q < 32" using 2 qr by linarith+
    have "\<not> n < 128" using 2 by simp
    then have e: "encode_unit u = [word_of_nat (192 + q), word_of_nat (128 + r)]"
      using 2(2) by (simp only: encode_unit_def Let_def n_def [symmetric] q_def r_def if_True if_False)
    have b1: "unat (word_of_nat (192 + q) :: byte) = 192 + q" by (rule byte_of_nat) (use q in linarith)
    have b2: "unat (word_of_nat (128 + r) :: byte) = 128 + r" by (rule byte_of_nat) (use qr in linarith)
    have "(192 + q - 192) * 64 + (128 + r - 128) = n" using qr by simp
    then have d: "decode2 (word_of_nat (192 + q)) (word_of_nat (128 + r)) = u"
      by (simp only: decode2_def b1 b2 u)
    have c1: "194 \<le> unat (word_of_nat (192 + q) :: byte)" "unat (word_of_nat (192 + q) :: byte) \<le> 223"
      unfolding b1 using q by linarith+
    have c2: "continuation (word_of_nat (128 + r))"
      unfolding continuation_nat b2 using qr by linarith
    show ?thesis
      by (simp only: e append_Cons append_Nil decode_two [OF c1 c2] d)
  next
    case 3
    define q1 q2 r where "q1 = n div 4096" and "q2 = n div 64 mod 64" and "r = n mod 64"
    have d64: "n div 64 = q1 * 64 + q2" unfolding q1_def q2_def
      using div_mult2_eq [of n 64 64] div_mult_mod_eq [of "n div 64" 64] by simp
    have "n = n div 64 * 64 + r" unfolding r_def by simp
    then have "n = q1 * 4096 + q2 * 64 + r" unfolding d64 by simp
    moreover have "r < 64" "q2 < 64" unfolding r_def q2_def by simp_all
    ultimately have qr: "n = q1 * 4096 + q2 * 64 + r" "r < 64" "q2 < 64" by blast+
    have q1: "q1 < 16" using n qr by linarith
    have "\<not> n < 128" "\<not> n < 2048" "\<not> (is_high u \<or> is_low u)" using 3 assms by simp_all
    then have e: "encode_unit u = [word_of_nat (224 + q1), word_of_nat (128 + q2), word_of_nat (128 + r)]"
      by (simp only: encode_unit_def Let_def n_def [symmetric] q1_def q2_def r_def if_True if_False)
    have b1: "unat (word_of_nat (224 + q1) :: byte) = 224 + q1" by (rule byte_of_nat) (use q1 in linarith)
    have b2: "unat (word_of_nat (128 + q2) :: byte) = 128 + q2" by (rule byte_of_nat) (use qr in linarith)
    have b3: "unat (word_of_nat (128 + r) :: byte) = 128 + r" by (rule byte_of_nat) (use qr in linarith)
    have s0: "q1 = 0 \<Longrightarrow> 32 \<le> q2" using 3 qr by linarith
    have s13: "q1 = 13 \<Longrightarrow> q2 \<le> 31" using ns qr by linarith
    have sec: "second_of (word_of_nat (224 + q1)) (word_of_nat (128 + q2))"
      unfolding second_of_nat b1 b2 using s0 s13 q1 qr by simp
    have "(224 + q1 - 224) * 4096 + (128 + q2 - 128) * 64 + (128 + r - 128) = n" using qr by simp
    then have d: "decode3 (word_of_nat (224 + q1)) (word_of_nat (128 + q2)) (word_of_nat (128 + r)) = u"
      by (simp only: decode3_def b1 b2 b3 u)
    have c1: "224 \<le> unat (word_of_nat (224 + q1) :: byte)" "unat (word_of_nat (224 + q1) :: byte) \<le> 239"
      unfolding b1 using q1 by linarith+
    have c3: "continuation (word_of_nat (128 + r))"
      unfolding continuation_nat b3 using qr by linarith
    show ?thesis
      by (simp only: e append_Cons append_Nil decode_three [OF c1 sec c3] d)
  qed
qed

lemma decode_pair:
  assumes "is_high u" "is_low v"
  shows "utf8_decode (encode_pair u v @ bs) = u # v # utf8_decode bs"
proof -
  define h l where "h = unat u - 55296" and "l = unat v - 56320"
  have h: "h < 1024" "unat u = 55296 + h" using assms(1) unfolding h_def is_high_nat by linarith+
  have l: "l < 1024" "unat v = 56320 + l" using assms(2) unfolding l_def is_low_nat by linarith+
  define c where "c = 65536 + h * 1024 + l"
  define q1 q2 q3 r where "q1 = c div 262144" and "q2 = c div 4096 mod 64"
    and "q3 = c div 64 mod 64" and "r = c mod 64"
  have c64: "c div 64 = (c div 4096) * 64 + q3" unfolding q3_def
    using div_mult2_eq [of c 64 64] div_mult_mod_eq [of "c div 64" 64] by simp
  have c4096: "c div 4096 = q1 * 64 + q2" unfolding q1_def q2_def
    using div_mult2_eq [of c 4096 64] div_mult_mod_eq [of "c div 4096" 64] by simp
  have "c = c div 64 * 64 + r" unfolding r_def by simp
  then have "c = q1 * 262144 + q2 * 4096 + q3 * 64 + r" unfolding c64 c4096 by simp
  moreover have "r < 64" "q3 < 64" "q2 < 64" unfolding r_def q3_def q2_def by simp_all
  ultimately have qr: "c = q1 * 262144 + q2 * 4096 + q3 * 64 + r" "r < 64" "q3 < 64" "q2 < 64"
    by blast+
  have cb: "65536 \<le> c" "c < 1114112" unfolding c_def using h l by linarith+
  have q1: "q1 \<le> 4" using cb qr by linarith
  have e: "encode_pair u v = [word_of_nat (240 + q1), word_of_nat (128 + q2),
                              word_of_nat (128 + q3), word_of_nat (128 + r)]"
    by (simp only: encode_pair_def Let_def c_def h_def l_def q1_def q2_def q3_def r_def)
  have b1: "unat (word_of_nat (240 + q1) :: byte) = 240 + q1" by (rule byte_of_nat) (use q1 in linarith)
  have b2: "unat (word_of_nat (128 + q2) :: byte) = 128 + q2" by (rule byte_of_nat) (use qr in linarith)
  have b3: "unat (word_of_nat (128 + q3) :: byte) = 128 + q3" by (rule byte_of_nat) (use qr in linarith)
  have b4: "unat (word_of_nat (128 + r) :: byte) = 128 + r" by (rule byte_of_nat) (use qr in linarith)
  have s0: "q1 = 0 \<Longrightarrow> 16 \<le> q2" using cb qr by linarith
  have s4: "q1 = 4 \<Longrightarrow> q2 \<le> 15" using cb qr by linarith
  have sec: "second_of (word_of_nat (240 + q1)) (word_of_nat (128 + q2))"
    unfolding second_of_nat b1 b2 using s0 s4 q1 qr by simp
  have p: "(240 + q1 - 240) * 262144 + (128 + q2 - 128) * 4096 + (128 + q3 - 128) * 64
              + (128 + r - 128) - 65536 = h * 1024 + l"
    using qr(1) unfolding c_def by simp
  have hl: "(h * 1024 + l) div 1024 = h" "(h * 1024 + l) mod 1024 = l"
    using l(1) by simp_all
  have uv: "word_of_nat (55296 + h) = u" "word_of_nat (56320 + l) = v"
    using h(2) l(2) unit_back [of u] unit_back [of v] by (simp_all only:)
  have d: "decode4 (word_of_nat (240 + q1)) (word_of_nat (128 + q2)) (word_of_nat (128 + q3))
             (word_of_nat (128 + r)) = [u, v]"
    by (simp only: decode4_def b1 b2 b3 b4 p Let_def hl uv)
  have c1: "240 \<le> unat (word_of_nat (240 + q1) :: byte)" "unat (word_of_nat (240 + q1) :: byte) \<le> 244"
    unfolding b1 using q1 by linarith+
  have c3: "continuation (word_of_nat (128 + q3))"
    unfolding continuation_nat b3 using qr by linarith
  have c4: "continuation (word_of_nat (128 + r))"
    unfolding continuation_nat b4 using qr by linarith
  show ?thesis
    by (simp only: e append_Cons append_Nil decode_four [OF c1 sec c3 c4] d)
qed

lemma utf8_roundtrip: "well_formed us \<Longrightarrow> utf8_decode (utf8_encode us) = us"
proof (induction us rule: utf8_encode.induct)
  case 1
  then show ?case by simp
next
  case (2 u)
  then show ?case using decode_unit [of u "[]"] by simp
next
  case (3 u v us)
  show ?case
  proof (cases "is_high u \<and> is_low v")
    case True
    then have "well_formed us" using "3.prems" by simp
    then have "utf8_decode (utf8_encode us) = us" using "3.IH"(1) True by simp
    then show ?thesis using True decode_pair [of u v "utf8_encode us"] by simp
  next
    case False
    then have p: "\<not> is_high u" "\<not> is_low u" "well_formed (v # us)" using "3.prems" by (auto split: if_splits)
    then have "utf8_decode (utf8_encode (v # us)) = v # us" using "3.IH"(2) False by simp
    then show ?thesis using False decode_unit [OF p(1,2), of "utf8_encode (v # us)"] by auto
  qed
qed

lemma well_formed_plain: "\<not> is_high u \<Longrightarrow> \<not> is_low u \<Longrightarrow> well_formed (u # us) = well_formed us"
  by (cases us) simp_all

lemma well_formed_pair: "is_high u \<Longrightarrow> is_low v \<Longrightarrow> well_formed (u # v # us) = well_formed us"
  by simp

lemma well_formed_append: "well_formed xs \<Longrightarrow> well_formed ys \<Longrightarrow> well_formed (xs @ ys)"
proof (induction xs rule: well_formed.induct)
  case 1
  then show ?case by simp
next
  case (2 u)
  then have "\<not> is_high u" "\<not> is_low u" by simp_all
  then show ?case using 2 by (simp add: well_formed_plain del: well_formed.simps)
next
  case (3 u v us)
  then show ?case by (auto simp: well_formed_plain split: if_splits)
qed

lemma ascii_plain: "unat u < 256 \<Longrightarrow> \<not> is_high u \<and> \<not> is_low u"
  by (simp add: is_high_nat is_low_nat)

lemma unat_of_char: "unat (of_char c :: jschar) = of_char c"
proof -
  have "(of_char c :: nat) < 256" by simp
  then have "(of_char c :: nat) < 65536" by linarith
  then have "unat (word_of_nat (of_char c) :: jschar) = of_char c" by (simp add: unat_of_nat)
  then show ?thesis by (simp add: of_nat_of_char)
qed

lemma well_formed_js: "well_formed (js s)"
proof (induction s)
  case Nil
  then show ?case by (simp add: js_def)
next
  case (Cons c s)
  have "unat (of_char c :: jschar) < 256" unfolding unat_of_char by simp
  then show ?case using Cons ascii_plain [of "of_char c"]
    by (simp add: js_def well_formed_plain del: well_formed.simps)
qed

subsection \<open>Parsing inverts the quoting of strings\<close>

lemma unit_eq_nat: "(u = (v :: jschar)) = (unat u = unat v)"
  by (simp add: word_unat_eq_iff)

lemma hex_value_digit: "d < 16 \<Longrightarrow> hex_value (hex_digit d) = Some d"
proof -
  assume d: "d < 16"
  show ?thesis
  proof (cases "d < 10")
    case True
    have u: "unat (word_of_nat (48 + d) :: jschar) = 48 + d" by (rule unit_of_nat) (use True in linarith)
    show ?thesis using True by (simp add: hex_value_def hex_digit_def word_le_nat_alt u del: of_nat_add)
  next
    case False
    have u: "unat (word_of_nat (87 + d) :: jschar) = 87 + d" by (rule unit_of_nat) (use d in linarith)
    show ?thesis using False d by (simp add: hex_value_def hex_digit_def word_le_nat_alt u del: of_nat_add)
  qed
qed

lemma hex_parts:
  fixes n :: nat
  shows "n div 4096 * 4096 + n div 256 mod 16 * 256 + n div 16 mod 16 * 16 + n mod 16 = n"
proof -
  have a: "n div 16 = n div 256 * 16 + n div 16 mod 16"
    using div_mult2_eq [of n 16 16] div_mult_mod_eq [of "n div 16" 16] by simp
  have b: "n div 256 = n div 4096 * 16 + n div 256 mod 16"
    using div_mult2_eq [of n 256 16] div_mult_mod_eq [of "n div 256" 16] by simp
  have "n = n div 16 * 16 + n mod 16" by simp
  also have "\<dots> = (n div 256 * 16 + n div 16 mod 16) * 16 + n mod 16" using a by simp
  also have "\<dots> = ((n div 4096 * 16 + n div 256 mod 16) * 16 + n div 16 mod 16) * 16 + n mod 16"
    using b by simp
  finally show ?thesis by simp
qed

lemma parse_hex4_escape:
  "parse_hex4 (hex_digit (unat u div 4096)) (hex_digit (unat u div 256 mod 16))
     (hex_digit (unat u div 16 mod 16)) (hex_digit (unat (u :: jschar) mod 16)) = Some u"
proof -
  have "unat u div 4096 < 16" using unat_unit [of u] by (simp add: less_mult_imp_div_less)
  then show ?thesis
    by (simp only: parse_hex4_def hex_value_digit hex_parts unit_back prod.case option.case
          mod_less_divisor zero_less_numeral)
qed

lemma parse_unicode_escape:
  "parse_string_body (unicode_escape u @ cs) = cons_string u (parse_string_body cs)"
  by (simp add: unicode_escape_def Let_def parse_hex4_escape)

lemma parse_escape_unit:
  "parse_string_body (escape_unit u @ cs) = cons_string u (parse_string_body cs)"
proof -
  consider "u = 0x08" | "u = 0x09" | "u = 0x0A" | "u = 0x0C" | "u = 0x0D" | "u = 0x22" | "u = 0x5C"
    | "u \<notin> {0x08, 0x09, 0x0A, 0x0C, 0x0D, 0x22, 0x5C}" "u < 0x20 \<or> is_high u \<or> is_low u"
    | "u \<notin> {0x08, 0x09, 0x0A, 0x0C, 0x0D, 0x22, 0x5C}" "\<not> (u < 0x20 \<or> is_high u \<or> is_low u)"
    by blast
  then show ?thesis
  proof cases
    case 8
    then have "escape_unit u = unicode_escape u" by (simp add: escape_unit_def)
    then show ?thesis by (simp only: parse_unicode_escape)
  next
    case 9
    then have "escape_unit u = [u]" by (simp add: escape_unit_def)
    then show ?thesis using 9 by simp
  qed (simp_all add: escape_unit_def unescape_def)
qed

lemma parse_pair:
  "is_high u \<Longrightarrow> is_low v \<Longrightarrow>
   parse_string_body (u # v # cs) = cons_string u (cons_string v (parse_string_body cs))"
  by (simp add: is_high_nat is_low_nat unit_eq_nat word_less_nat_alt)

lemma parse_quote_body: "parse_string_body (quote_body s @ 0x22 # rest) = Some (s, rest)"
proof (induction s rule: quote_body.induct)
  case 1
  then show ?case by simp
next
  case (2 u)
  show ?case
    by (simp only: quote_body.simps parse_escape_unit) (simp add: cons_string_def)
next
  case (3 u v us)
  show ?case
  proof (cases "is_high u \<and> is_low v")
    case True
    then show ?thesis using 3
      by (simp add: parse_pair cons_string_def del: parse_string_body.simps)
  next
    case False
    then have "quote_body (u # v # us) = escape_unit u @ quote_body (v # us)" by auto
    then show ?thesis using 3 False
      by (simp only: parse_escape_unit append_assoc) (auto simp add: cons_string_def)
  qed
qed

subsection \<open>Parsing inverts the printing of integers\<close>

lemma js_append: "js (xs @ ys) = js xs @ js ys"
  by (simp add: js_def)

lemma js_Cons: "js (c # cs) = of_char c # js cs"
  by (simp add: js_def)

lemma js_Nil: "js [] = []"
  by (simp add: js_def)

lemma digit_unit: "d < 10 \<Longrightarrow> unat (of_char (digit_char d) :: jschar) = 48 + d"
  by (simp add: unat_of_char digit_char_def)

lemma is_digit_nat: "is_digit c \<longleftrightarrow> 48 \<le> unat c \<and> unat c \<le> 57"
  by (simp add: is_digit_def word_le_nat_alt)

lemma digit_is_digit: "d < 10 \<Longrightarrow> is_digit (of_char (digit_char d))"
  by (simp add: is_digit_nat digit_unit)

lemma show_nat_digits: "c \<in> set (js (show_nat n)) \<Longrightarrow> is_digit c"
proof (induction n rule: show_nat.induct)
  case (1 n)
  show ?case
  proof (cases "n < 10")
    case True
    then show ?thesis using "1.prems" by (subst (asm) show_nat.simps) (auto simp: js_def digit_is_digit)
  next
    case False
    have "n mod 10 < 10" by simp
    then show ?thesis using "1.prems" "1.IH" False digit_is_digit [of "n mod 10"]
      by (subst (asm) show_nat.simps) (auto simp: js_append js_Cons js_Nil)
  qed
qed

lemma digits_value_snoc: "digits_value (ds @ [c]) = digits_value ds * 10 + (unat c - 48)"
  by (simp add: digits_value_def)

lemma digits_value_show_nat: "digits_value (js (show_nat n)) = n"
proof (induction n rule: show_nat.induct)
  case (1 n)
  show ?case
  proof (cases "n < 10")
    case True
    then show ?thesis
      by (subst show_nat.simps) (simp add: js_Cons js_Nil digits_value_def digit_unit)
  next
    case False
    have "n mod 10 < 10" by simp
    then show ?thesis using "1.IH" False
      by (subst show_nat.simps) (simp add: js_append js_Cons js_Nil digits_value_snoc digit_unit)
  qed
qed

text \<open>The first digit is 0 for the number 0 only.\<close>

lemma show_nat_zero: "js (show_nat 0) = [0x30]"
proof -
  have "unat (of_char (digit_char 0) :: jschar) = unat (0x30 :: jschar)"
    by (simp add: digit_unit)
  then have "(of_char (digit_char 0) :: jschar) = 0x30" by (rule unit_eqI)
  then show ?thesis by (subst show_nat.simps) (simp add: js_Cons js_Nil)
qed

lemma show_nat_head: "0 < n \<Longrightarrow> \<exists>d ds. js (show_nat n) = d # ds \<and> is_digit d \<and> d \<noteq> 0x30"
proof (induction n rule: show_nat.induct)
  case (1 n)
  show ?case
  proof (cases "n < 10")
    case True
    have "unat (of_char (digit_char n) :: jschar) \<noteq> unat (0x30 :: jschar)"
      using True "1.prems" by (simp add: digit_unit)
    then have "(of_char (digit_char n) :: jschar) \<noteq> 0x30" by metis
    then show ?thesis using True
      by (subst show_nat.simps) (simp add: js_Cons js_Nil digit_is_digit)
  next
    case False
    then have "0 < n div 10" by simp
    then obtain d ds where "js (show_nat (n div 10)) = d # ds" "is_digit d" "d \<noteq> 0x30"
      using "1.IH" False by blast
    then show ?thesis using False
      by (subst show_nat.simps) (simp add: js_append)
  qed
qed

lemma parse_fraction_none: "c \<noteq> 0x2E \<Longrightarrow> parse_fraction (c # r) = Some ([], c # r)"
  by (simp add: parse_fraction_def)

lemma parse_exponent_none: "c \<noteq> 0x65 \<Longrightarrow> c \<noteq> 0x45 \<Longrightarrow> parse_exponent (c # r) = Some (0, c # r)"
  by (simp add: parse_exponent_def)

lemma number_value_int: "number_value neg m 0 0 = JInt (if neg then - int m else int m)"
  by (simp add: number_value_def)

lemma parse_unsigned_show_nat:
  assumes "ends_number c"
  shows "parse_unsigned neg (js (show_nat n) @ c # rest) =
           Some (JInt (if neg then - int n else int n), c # rest)"
proof (cases "n = 0")
  case True
  then show ?thesis using assms
    by (simp add: show_nat_zero parse_unsigned_def is_digit_def parse_fraction_none
          parse_exponent_none number_value_int digits_value_def ends_number_def)
next
  case False
  then obtain d ds where h: "js (show_nat n) = d # ds" "is_digit d" "d \<noteq> 0x30"
    using show_nat_head [of n] by auto
  have all: "\<And>x. x \<in> set (js (show_nat n)) \<Longrightarrow> is_digit x" by (rule show_nat_digits)
  have tw: "takeWhile is_digit (js (show_nat n) @ c # rest) = js (show_nat n)"
    using all assms by (simp add: takeWhile_append2 ends_number_def)
  have dw: "dropWhile is_digit (js (show_nat n) @ c # rest) = c # rest"
    using all assms by (simp add: dropWhile_append2 ends_number_def)
  have "parse_unsigned neg ((d # ds) @ c # rest) =
          Some (number_value neg (digits_value (js (show_nat n) @ [])) (length ([] :: jstring)) 0, c # rest)"
    using h(2,3) tw dw assms unfolding h(1) [symmetric]
    by (simp add: parse_unsigned_def h(1) parse_fraction_none parse_exponent_none ends_number_def Let_def)
  then show ?thesis
    by (simp add: h(1) [symmetric] digits_value_show_nat number_value_int)
qed

lemma parse_number_show_int:
  assumes "ends_number c"
  shows "parse_number (js (show_int i) @ c # rest) = Some (JInt i, c # rest)"
proof (cases "i < 0")
  case True
  then show ?thesis
    using parse_unsigned_show_nat [OF assms, of True "nat (- i)" rest]
    by (simp add: show_int_def js_Cons parse_number_def)
next
  case False
  obtain d ds where h: "js (show_nat (nat i)) = d # ds" "is_digit d"
    using show_nat_head [of "nat i"] show_nat_zero by (cases "nat i = 0") (auto simp: is_digit_def)
  have "d \<noteq> 0x2D" using h(2) by (auto simp: is_digit_def)
  then show ?thesis
    using False parse_unsigned_show_nat [OF assms, of False "nat i" rest] h
    by (simp add: show_int_def parse_number_def)
qed

subsection \<open>Parsing the text of a tracking object\<close>

lemma skip_ws_keep: "\<not> is_ws c \<Longrightarrow> skip_ws (c # cs) = c # cs"
  by (simp add: skip_ws_def)

lemma show_int_head: "\<exists>f fs. js (show_int i) = f # fs \<and> (f = 0x2D \<or> is_digit f)"
proof (cases "i < 0")
  case True
  then show ?thesis by (simp add: show_int_def js_Cons)
next
  case False
  then show ?thesis
    using show_nat_head [of "nat i"] show_nat_zero
    by (cases "nat i = 0") (auto simp: show_int_def is_digit_def)
qed

lemma parse_value_int:
  assumes "ends_number c"
  shows "parse_value (Suc m) (js (show_int i) @ c # rest) = Some (JInt i, c # rest)"
proof -
  obtain f fs where h: "js (show_int i) = f # fs" "f = 0x2D \<or> is_digit f"
    using show_int_head by blast
  have f: "\<not> is_ws f" "f \<noteq> 0x7B" "f \<noteq> 0x5B" "f \<noteq> 0x22" "f \<noteq> 0x74" "f \<noteq> 0x66" "f \<noteq> 0x6E"
    using h(2) by (auto simp: is_ws_def is_digit_def)
  have "parse_value (Suc m) ((f # fs) @ c # rest) = parse_number ((f # fs) @ c # rest)"
    using f by (simp add: skip_ws_keep)
  then show ?thesis
    unfolding h(1) [symmetric] by (simp only: parse_number_show_int [OF assms])
qed

lemma parse_value_string:
  "parse_value (Suc m) (JSON_quote s @ rest) = Some (JString s, rest)"
  using parse_quote_body [of s rest]
  by (simp add: JSON_quote_def skip_ws_keep is_ws_def)

lemma parse_value_object:
  "parse_value (Suc m) (0x7B # JSON_quote k @ r) = parse_members m [] (JSON_quote k @ r)"
  by (simp add: JSON_quote_def skip_ws_keep is_ws_def)

lemma parse_member:
  assumes "parse_value m r2 = Some (v, d # r4)" "\<not> is_ws d"
  shows "parse_members (Suc m) acc (JSON_quote k @ 0x3A # r2) =
           (if d = 0x2C then parse_members m ((k, v) # acc) r4
            else if d = 0x7D then Some (JObject (rev ((k, v) # acc)), r4)
            else None)"
  using parse_quote_body [of k "0x3A # r2"] assms
  by (simp add: JSON_quote_def skip_ws_keep is_ws_def)

lemma comma_ends: "ends_number 0x2C" "ends_number 0x7D" "\<not> is_ws 0x2C" "\<not> is_ws 0x7D"
  by (simp_all add: ends_number_def is_digit_def is_ws_def)

lemma int_member_more:
  "parse_members (Suc (Suc m)) acc (JSON_quote k @ 0x3A # js (show_int i) @ 0x2C # r) =
     parse_members (Suc m) ((k, JInt i) # acc) r"
  using parse_member [OF parse_value_int [OF comma_ends(1), of m i r] comma_ends(3), of acc k]
  by simp

lemma int_member_last:
  "parse_members (Suc (Suc m)) acc (JSON_quote k @ 0x3A # js (show_int i) @ 0x7D # r) =
     Some (JObject (rev ((k, JInt i) # acc)), r)"
  using parse_member [OF parse_value_int [OF comma_ends(2), of m i r] comma_ends(4), of acc k]
  by simp

lemma string_member_last:
  "parse_members (Suc (Suc m)) acc (JSON_quote k @ 0x3A # JSON_quote s @ 0x7D # r) =
     Some (JObject (rev ((k, JString s) # acc)), r)"
  using parse_member [OF parse_value_string [of m s "0x7D # r"] comma_ends(4), of acc k]
  by simp

lemma key_texts:
  \<open>js ''{"leadId":'' = 0x7B # JSON_quote (js ''leadId'') @ [0x3A]\<close>
  \<open>js '',"campaignLeadId":'' = 0x2C # JSON_quote (js ''campaignLeadId'') @ [0x3A]\<close>
  \<open>js '',"campaignStepId":'' = 0x2C # JSON_quote (js ''campaignStepId'') @ [0x3A]\<close>
  \<open>js '',"originalUrl":'' = 0x2C # JSON_quote (js ''originalUrl'') @ [0x3A]\<close>
  \<open>js ''}'' = [0x7D]\<close>
  by (simp_all add: js_def JSON_quote_def escape_unit_def is_high_def is_low_def)

lemma stringify_shape:
  "JSON_stringify td =
     0x7B # JSON_quote (js ''leadId'') @ 0x3A # js (show_int (td_leadId td)) @
     0x2C # JSON_quote (js ''campaignLeadId'') @ 0x3A # js (show_int (td_campaignLeadId td)) @
     0x2C # JSON_quote (js ''campaignStepId'') @ 0x3A # js (show_int (td_campaignStepId td)) @
     (case td_originalUrl td of
        None \<Rightarrow> [0x7D]
      | Some u \<Rightarrow> 0x2C # JSON_quote (js ''originalUrl'') @ 0x3A # JSON_quote u @ [0x7D])"
  unfolding JSON_stringify_def key_texts
  by (simp split: option.splits)

lemma parse_stringify:
  "parse_value (Suc (Suc (Suc (Suc (Suc (Suc m)))))) (JSON_stringify td) = Some (trackingData_value td, [])"
  unfolding stringify_shape parse_value_object int_member_more
  by (cases "td_originalUrl td")
     (simp_all only: option.case int_member_more int_member_last string_member_last trackingData_value_def
        rev.simps append_Nil append_Cons)

subsection \<open>The text of a tracking object is well formed\<close>

lemma ascii_well_formed: "(\<And>x. x \<in> set xs \<Longrightarrow> unat x < 256) \<Longrightarrow> well_formed xs"
proof (induction xs)
  case Nil
  then show ?case by simp
next
  case (Cons x xs)
  then have "unat x < 256" "well_formed xs" by simp_all
  then show ?case using ascii_plain [of x] by (simp add: well_formed_plain del: well_formed.simps)
qed

lemma hex_digit_ascii: "d < 16 \<Longrightarrow> unat (hex_digit d) < 256"
proof -
  assume d: "d < 16"
  have "unat (word_of_nat (48 + d) :: jschar) = 48 + d" by (rule unit_of_nat) (use d in linarith)
  moreover have "unat (word_of_nat (87 + d) :: jschar) = 87 + d" by (rule unit_of_nat) (use d in linarith)
  ultimately show ?thesis using d by (simp only: hex_digit_def split: if_splits) linarith
qed

lemma well_formed_unicode_escape: "well_formed (unicode_escape u)"
proof (rule ascii_well_formed)
  fix x assume x: "x \<in> set (unicode_escape u)"
  have "unat u div 4096 < 16" using unat_unit [of u] by (simp add: less_mult_imp_div_less)
  then show "unat x < 256"
    using x hex_digit_ascii [of "unat u div 4096"] hex_digit_ascii [of "unat u div 256 mod 16"]
      hex_digit_ascii [of "unat u div 16 mod 16"] hex_digit_ascii [of "unat u mod 16"]
    by (auto simp: unicode_escape_def Let_def)
qed

lemma well_formed_escape_unit: "well_formed (escape_unit u)"
  using well_formed_unicode_escape [of u]
  by (simp add: escape_unit_def is_high_def is_low_def)

lemma well_formed_quote_body: "well_formed (quote_body s)"
proof (induction s rule: quote_body.induct)
  case 1
  then show ?case by simp
next
  case (2 u)
  then show ?case by (simp add: well_formed_escape_unit)
next
  case (3 u v us)
  then show ?case
    by (auto simp: well_formed_append well_formed_escape_unit simp del: well_formed.simps quote_body.simps(2)
          simp add: well_formed_pair)
qed

lemma well_formed_quote: "well_formed (JSON_quote s)"
proof -
  have q: "\<not> is_high 0x22" "\<not> is_low 0x22" by (simp_all add: is_high_def is_low_def)
  have "well_formed [0x22]" using q by simp
  then have "well_formed (quote_body s @ [0x22])" by (intro well_formed_append well_formed_quote_body)
  then show ?thesis unfolding JSON_quote_def using q by (simp add: well_formed_plain del: well_formed.simps)
qed

lemma well_formed_stringify: "well_formed (JSON_stringify td)"
  unfolding JSON_stringify_def
  by (intro well_formed_append well_formed_js)
     (simp_all add: well_formed_append well_formed_js well_formed_quote split: option.splits)

subsection \<open>The round trip of a token\<close>

lemma JSON_parse_stringify: "JSON_parse (JSON_stringify td) = Inr (trackingData_value td)"
proof -
  have "2 \<le> length (JSON_stringify td)"
    unfolding stringify_shape by (simp add: JSON_quote_def)
  then obtain m where m: "2 * length (JSON_stringify td) + 2 = Suc (Suc (Suc (Suc (Suc (Suc m)))))"
    by (metis add_2_eq_Suc' mult_2 le_iff_add add_Suc_right add_Suc numeral_2_eq_2)
  show ?thesis
    unfolding JSON_parse_def m parse_stringify by (simp add: skip_ws_def)
qed

lemma property_values:
  "property (trackingData_value td) ''leadId'' = JInt (td_leadId td)"
  "property (trackingData_value td) ''campaignLeadId'' = JInt (td_campaignLeadId td)"
  "property (trackingData_value td) ''campaignStepId'' = JInt (td_campaignStepId td)"
  "property (trackingData_value td) ''originalUrl'' =
     (case td_originalUrl td of None \<Rightarrow> JUndefined | Some u \<Rightarrow> JString u)"
  by (simp_all add: property_def trackingData_value_def js_def split: option.splits)

text \<open>The token of a concrete tracking object, computed with the definitions.\<close>

lemma example_token:
  "encodeToken exampleData =
     ''eyJsZWFkSWQiOjcsImNhbXBhaWduTGVhZElkIjozLCJjYW1wYWlnblN0ZXBJZCI6MSwib3JpZ2luYWxVcmwiOiJodHRwczovL2V4YW1wbGUuY29tL2E/Yj0xIn0=''"
  by code_simp

text \<open>
  Claim C2. For every tracking object with integer ids and an optional original URL (any
  JavaScript string), decoding the token that encoding produces gives back the object:
  the decoded value is the object with the same members in the same order, and reading
  its four properties gives the three ids and the URL (\<open>undefined\<close> when there was
  none). The ids are integers of any size here; JavaScript prints and reads in this way
  the integers that a double holds exactly.
\<close>

theorem decode_encode_token:
  "decodeToken (encodeToken td) = Inr (trackingData_value td) \<and>
   property (trackingData_value td) ''leadId'' = JInt (td_leadId td) \<and>
   property (trackingData_value td) ''campaignLeadId'' = JInt (td_campaignLeadId td) \<and>
   property (trackingData_value td) ''campaignStepId'' = JInt (td_campaignStepId td) \<and>
   property (trackingData_value td) ''originalUrl'' =
     (case td_originalUrl td of None \<Rightarrow> JUndefined | Some u \<Rightarrow> JString u)"
  unfolding decodeToken_def encodeToken_def base64_roundtrip
    utf8_roundtrip [OF well_formed_stringify] JSON_parse_stringify property_values
  by simp

subsection \<open>The bound on nested calls of the parser\<close>

lemma skip_ws_length: "length (skip_ws cs) \<le> length cs"
  by (simp add: skip_ws_def length_dropWhile_le)

lemma cons_string_rest: "cons_string u x = Some (s, r) \<Longrightarrow> \<exists>s'. x = Some (s', r)"
  by (auto simp: cons_string_def split: option.splits)

lemma parse_string_body_shorter: "parse_string_body cs = Some (s, r) \<Longrightarrow> length r < length cs"
proof (induction cs arbitrary: s rule: parse_string_body.induct)
  case 1
  then show ?case by simp
next
  case (2 c cs)
  show ?case
  proof (cases "c = 0x22")
    case True
    then show ?thesis using "2.prems" by simp
  next
    case nq: False
    show ?thesis
    proof (cases "c = 0x5C")
      case True
      then obtain e es where cs: "cs = e # es" using "2.prems" nq by (cases cs) auto
      show ?thesis
      proof (cases "e = 0x75")
        case eu: True
        then obtain h1 h2 h3 h4 r0 u where es: "es = h1 # h2 # h3 # h4 # r0"
          and h: "parse_hex4 h1 h2 h3 h4 = Some u"
          and p: "cons_string u (parse_string_body r0) = Some (s, r)"
          using "2.prems" nq True cs by (auto split: list.splits option.splits)
        from cons_string_rest [OF p] obtain s' where "parse_string_body r0 = Some (s', r)" by blast
        then have "length r < length r0" using "2.IH"(1) nq True cs eu es h by blast
        then show ?thesis using cs es by simp
      next
        case False
        then obtain u where h: "unescape e = Some u"
          and p: "cons_string u (parse_string_body es) = Some (s, r)"
          using "2.prems" nq True cs by (auto split: option.splits)
        from cons_string_rest [OF p] obtain s' where "parse_string_body es = Some (s', r)" by blast
        then have "length r < length es" using "2.IH"(2) nq True cs False h by blast
        then show ?thesis using cs by simp
      qed
    next
      case False
      then have p: "cons_string c (parse_string_body cs) = Some (s, r)" and c: "\<not> c < 0x20"
        using "2.prems" nq by (auto split: if_splits)
      from cons_string_rest [OF p] obtain s' where "parse_string_body cs = Some (s', r)" by blast
      then have "length r < length cs" using "2.IH"(3) nq False c by blast
      then show ?thesis by simp
    qed
  qed
qed

lemma dropWhile_le: "length (dropWhile P xs) \<le> length xs"
  by (rule length_dropWhile_le)

lemma parse_exponent_length:
  assumes "parse_exponent cs = Some (e, r)"
  shows "length r \<le> length cs"
proof (cases cs)
  case Nil
  then show ?thesis using assms by (simp add: parse_exponent_def)
next
  case (Cons c r0)
  show ?thesis
  proof (cases "c = 0x65 \<or> c = 0x45")
    case False
    then show ?thesis using assms Cons by (simp add: parse_exponent_def)
  next
    case True
    define r1 where "r1 = (case r0 of [] \<Rightarrow> r0
                            | s # r' \<Rightarrow> if s = 0x2D then r' else if s = 0x2B then r' else r0)"
    have r1: "length r1 \<le> length r0" unfolding r1_def by (cases r0) auto
    have "r = dropWhile is_digit r1"
      using assms Cons True unfolding parse_exponent_def r1_def
      by (cases r0) (auto simp: Let_def split: if_splits)
    then have "length r \<le> length r1" by (simp add: dropWhile_le)
    then show ?thesis using r1 Cons by simp
  qed
qed

lemma parse_fraction_length:
  assumes "parse_fraction cs = Some (fd, r)"
  shows "length r \<le> length cs"
proof (cases cs)
  case Nil
  then show ?thesis using assms by (simp add: parse_fraction_def)
next
  case (Cons c r0)
  show ?thesis
  proof (cases "c = 0x2E")
    case False
    then show ?thesis using assms Cons by (simp add: parse_fraction_def)
  next
    case True
    then have "r = dropWhile is_digit r0"
      using assms Cons by (auto simp: parse_fraction_def split: if_splits)
    then have "length r \<le> length r0" by (simp add: dropWhile_le)
    then show ?thesis using Cons by simp
  qed
qed

lemma parse_unsigned_shorter:
  assumes a: "parse_unsigned neg cs = Some (v, r)"
  shows "length r < length cs"
proof -
  obtain c r0 where cs: "cs = c # r0" and d: "is_digit c"
    using a by (cases cs) (auto simp: parse_unsigned_def split: if_splits)
  define r1 where "r1 = (if c = 0x30 then r0 else dropWhile is_digit cs)"
  have "dropWhile is_digit cs = dropWhile is_digit r0" using cs d by simp
  then have r1: "length r1 \<le> length r0" unfolding r1_def by (simp add: dropWhile_le)
  have "\<exists>fd r2 e. parse_fraction r1 = Some (fd, r2) \<and> parse_exponent r2 = Some (e, r)"
  proof (cases "parse_fraction r1")
    case None
    then show ?thesis using a cs d unfolding parse_unsigned_def r1_def by (simp add: Let_def)
  next
    case (Some p)
    obtain fd r2 where p: "p = (fd, r2)" by (cases p)
    show ?thesis
    proof (cases "parse_exponent r2")
      case None
      then show ?thesis using a cs d Some p unfolding parse_unsigned_def r1_def by (simp add: Let_def)
    next
      case (Some q)
      obtain e r3 where q: "q = (e, r3)" by (cases q)
      have "r3 = r" using a cs d \<open>parse_fraction r1 = Some p\<close> p Some q
        unfolding parse_unsigned_def r1_def by (simp add: Let_def)
      then show ?thesis using \<open>parse_fraction r1 = Some p\<close> p Some q by simp
    qed
  qed
  then obtain fd r2 e where f: "parse_fraction r1 = Some (fd, r2)" and x: "parse_exponent r2 = Some (e, r)"
    by blast
  have "length r \<le> length r1"
    using parse_fraction_length [OF f] parse_exponent_length [OF x] by linarith
  then show ?thesis using r1 cs by simp
qed

lemma parse_number_shorter:
  assumes "parse_number cs = Some (v, r)"
  shows "length r < length cs"
proof (cases cs)
  case Nil
  then show ?thesis using assms by (simp add: parse_number_def)
next
  case (Cons c r0)
  show ?thesis
  proof (cases "c = 0x2D")
    case True
    then have "parse_unsigned True r0 = Some (v, r)" using assms Cons by (simp add: parse_number_def)
    from parse_unsigned_shorter [OF this] show ?thesis using Cons by simp
  next
    case False
    then have "parse_unsigned False cs = Some (v, r)" using assms Cons by (simp add: parse_number_def)
    from parse_unsigned_shorter [OF this] show ?thesis .
  qed
qed

lemma parse_literal_shorter:
  assumes a: "parse_literal w x cs = Some (v, r)" and w: "w \<noteq> []"
  shows "length r < length cs"
proof -
  have t: "take (length w) cs = js w" and r: "r = drop (length w) cs"
    using a by (auto simp: parse_literal_def split: if_splits)
  have "length (js w) = length w" by (simp add: js_def)
  then have "min (length cs) (length w) = length w" using t by (metis length_take)
  then show ?thesis using r w by (cases w) auto
qed

lemma parse_value_Suc_cases:
  assumes a: "parse_value (Suc n) cs = Some (v, r)"
  shows "(\<exists>x. length x < length cs \<and> parse_members n [] x = Some (v, r) \<and>
              (\<forall>m. parse_members m [] x = Some (v, r) \<longrightarrow> parse_value (Suc m) cs = Some (v, r)))
       \<or> (\<exists>x. length x < length cs \<and> parse_elements n [] x = Some (v, r) \<and>
              (\<forall>m. parse_elements m [] x = Some (v, r) \<longrightarrow> parse_value (Suc m) cs = Some (v, r)))
       \<or> (length r < length cs \<and> (\<forall>m. parse_value (Suc m) cs = Some (v, r)))"
proof -
  obtain c r0 where s: "skip_ws cs = c # r0"
    using a by (cases "skip_ws cs") auto
  have l0: "length r0 < length cs" using skip_ws_length [of cs] s by simp
  consider (obj) "c = 0x7B" | (arr) "c = 0x5B" | (str) "c = 0x22"
    | (other) "c \<noteq> 0x7B" "c \<noteq> 0x5B" "c \<noteq> 0x22"
    by blast
  then show ?thesis
  proof cases
    case obj
    obtain d r1 where s1: "skip_ws r0 = d # r1"
      using a s obj by (cases "skip_ws r0") auto
    have l1: "length (d # r1) \<le> length r0" using skip_ws_length [of r0] s1 by simp
    show ?thesis
    proof (cases "d = 0x7D")
      case True
      then have "r = r1" "v = JObject []" using a s obj s1 by auto
      then show ?thesis using s obj s1 True l0 l1 by auto
    next
      case False
      then have "parse_members n [] (d # r1) = Some (v, r)" using a s obj s1 by simp
      moreover have "length (d # r1) < length cs" using l0 l1 by linarith
      moreover have "\<forall>m. parse_members m [] (d # r1) = Some (v, r) \<longrightarrow> parse_value (Suc m) cs = Some (v, r)"
        using s obj s1 False by simp
      ultimately show ?thesis by blast
    qed
  next
    case arr
    obtain d r1 where s1: "skip_ws r0 = d # r1"
      using a s arr by (cases "skip_ws r0") auto
    have l1: "length (d # r1) \<le> length r0" using skip_ws_length [of r0] s1 by simp
    show ?thesis
    proof (cases "d = 0x5D")
      case True
      then have "r = r1" "v = JArray []" using a s arr s1 by auto
      then show ?thesis using s arr s1 True l0 l1 by auto
    next
      case False
      then have "parse_elements n [] (d # r1) = Some (v, r)" using a s arr s1 by simp
      moreover have "length (d # r1) < length cs" using l0 l1 by linarith
      moreover have "\<forall>m. parse_elements m [] (d # r1) = Some (v, r) \<longrightarrow> parse_value (Suc m) cs = Some (v, r)"
        using s arr s1 False by simp
      ultimately show ?thesis by blast
    qed
  next
    case str
    then obtain t where p: "parse_string_body r0 = Some (t, r)"
      using a s by (auto split: option.splits)
    have "length r < length cs" using parse_string_body_shorter [OF p] l0 by linarith
    moreover have "\<forall>m. parse_value (Suc m) cs = Some (v, r)"
      using a s str by simp
    ultimately show ?thesis by blast
  next
    case other
    have same: "\<forall>m. parse_value (Suc m) cs = parse_value (Suc n) cs"
      using s other by simp
    have "length r < length (c # r0)"
    proof -
      consider "c = 0x74" | "c = 0x66" | "c = 0x6E" | "c \<noteq> 0x74" "c \<noteq> 0x66" "c \<noteq> 0x6E" by blast
      then show ?thesis
      proof cases
        case 1
        then have "parse_literal ''true'' (JBool True) (c # r0) = Some (v, r)" using a s other by simp
        from parse_literal_shorter [OF this] show ?thesis by simp
      next
        case 2
        then have "parse_literal ''false'' (JBool False) (c # r0) = Some (v, r)" using a s other by simp
        from parse_literal_shorter [OF this] show ?thesis by simp
      next
        case 3
        then have "parse_literal ''null'' JNull (c # r0) = Some (v, r)" using a s other by simp
        from parse_literal_shorter [OF this] show ?thesis by simp
      next
        case 4
        then have "parse_number (c # r0) = Some (v, r)" using a s other by simp
        from parse_number_shorter [OF this] show ?thesis .
      qed
    qed
    then have "length r < length cs" using skip_ws_length [of cs] s by simp
    then show ?thesis using same a by simp
  qed
qed

lemma parse_elements_Suc_cases:
  assumes a: "parse_elements (Suc n) acc cs = Some (v, r)"
  shows "\<exists>v1 r1. parse_value n cs = Some (v1, r1) \<and>
           ((\<exists>x. length x < length r1 \<and> parse_elements n (v1 # acc) x = Some (v, r) \<and>
                 (\<forall>m. parse_value m cs = Some (v1, r1) \<longrightarrow>
                      parse_elements m (v1 # acc) x = Some (v, r) \<longrightarrow>
                      parse_elements (Suc m) acc cs = Some (v, r)))
            \<or> (length r < length r1 \<and>
                 (\<forall>m. parse_value m cs = Some (v1, r1) \<longrightarrow> parse_elements (Suc m) acc cs = Some (v, r))))"
proof -
  obtain v1 r1 where p: "parse_value n cs = Some (v1, r1)"
    using a by (cases "parse_value n cs") auto
  obtain d r2 where s: "skip_ws r1 = d # r2"
    using a p by (cases "skip_ws r1") auto
  have l: "length r2 < length r1" using skip_ws_length [of r1] s by simp
  show ?thesis
  proof (cases "d = 0x2C")
    case True
    then have "parse_elements n (v1 # acc) r2 = Some (v, r)" using a p s by simp
    moreover have "\<forall>m. parse_value m cs = Some (v1, r1) \<longrightarrow>
                      parse_elements m (v1 # acc) r2 = Some (v, r) \<longrightarrow>
                      parse_elements (Suc m) acc cs = Some (v, r)"
      using s True by simp
    ultimately show ?thesis using p l by blast
  next
    case False
    then have d: "d = 0x5D" and r: "r = r2" "v = JArray (rev (v1 # acc))"
      using a p s by (auto split: if_splits)
    have "\<forall>m. parse_value m cs = Some (v1, r1) \<longrightarrow> parse_elements (Suc m) acc cs = Some (v, r)"
      using s d r by simp
    then show ?thesis using p l r by blast
  qed
qed

lemma parse_members_Suc_cases:
  assumes a: "parse_members (Suc n) acc cs = Some (v, r)"
  shows "\<exists>k v1 r2 r3. length r2 < length cs \<and> parse_value n r2 = Some (v1, r3) \<and>
           ((\<exists>x. length x < length r3 \<and> parse_members n ((k, v1) # acc) x = Some (v, r) \<and>
                 (\<forall>m. parse_value m r2 = Some (v1, r3) \<longrightarrow>
                      parse_members m ((k, v1) # acc) x = Some (v, r) \<longrightarrow>
                      parse_members (Suc m) acc cs = Some (v, r)))
            \<or> (length r < length r3 \<and>
                 (\<forall>m. parse_value m r2 = Some (v1, r3) \<longrightarrow> parse_members (Suc m) acc cs = Some (v, r))))"
proof -
  obtain q r0 where s0: "skip_ws cs = q # r0"
    using a by (cases "skip_ws cs") auto
  have q: "q = 0x22" using a s0 by (auto split: if_splits)
  obtain k r1 where k: "parse_string_body r0 = Some (k, r1)"
    using a s0 q by (cases "parse_string_body r0") auto
  obtain colon r2 where s1: "skip_ws r1 = colon # r2"
    using a s0 q k by (cases "skip_ws r1") auto
  have colon: "colon = 0x3A" using a s0 q k s1 by (auto split: if_splits)
  obtain v1 r3 where p: "parse_value n r2 = Some (v1, r3)"
    using a s0 q k s1 colon by (cases "parse_value n r2") auto
  obtain d r4 where s2: "skip_ws r3 = d # r4"
    using a s0 q k s1 colon p by (cases "skip_ws r3") auto
  have l2: "length r2 < length cs"
    using skip_ws_length [of cs] s0 parse_string_body_shorter [OF k] skip_ws_length [of r1] s1 by simp
  have l4: "length r4 < length r3" using skip_ws_length [of r3] s2 by simp
  show ?thesis
  proof (cases "d = 0x2C")
    case True
    then have "parse_members n ((k, v1) # acc) r4 = Some (v, r)"
      using a s0 q k s1 colon p s2 by simp
    moreover have "\<forall>m. parse_value m r2 = Some (v1, r3) \<longrightarrow>
                      parse_members m ((k, v1) # acc) r4 = Some (v, r) \<longrightarrow>
                      parse_members (Suc m) acc cs = Some (v, r)"
      using s0 q k s1 colon s2 True by simp
    ultimately show ?thesis using p l2 l4 by blast
  next
    case False
    then have d: "d = 0x7D" and r: "r = r4" "v = JObject (rev ((k, v1) # acc))"
      using a s0 q k s1 colon p s2 by (auto split: if_splits)
    have "\<forall>m. parse_value m r2 = Some (v1, r3) \<longrightarrow> parse_members (Suc m) acc cs = Some (v, r)"
      using s0 q k s1 colon s2 d r by simp
    then show ?thesis using p l2 l4 r by blast
  qed
qed

text \<open>
  The bound on nested calls never decides the result: a text that some bound lets the
  parser read is read in the same way with every bound above twice its length.
\<close>

lemma parse_fuel:
  "parse_value n cs = Some (v, r) \<Longrightarrow>
     length r < length cs \<and> (\<forall>m. 2 * length cs + 1 \<le> m \<longrightarrow> parse_value m cs = Some (v, r))"
  "parse_elements n acc cs = Some (v, r) \<Longrightarrow>
     length r < length cs \<and> (\<forall>m. 2 * length cs + 2 \<le> m \<longrightarrow> parse_elements m acc cs = Some (v, r))"
  "parse_members n acc' cs = Some (v, r) \<Longrightarrow>
     length r < length cs \<and> (\<forall>m. 2 * length cs + 2 \<le> m \<longrightarrow> parse_members m acc' cs = Some (v, r))"
proof (induction n arbitrary: cs acc acc' v r)
  case 0
  {
    case 1 then show ?case by simp
  next
    case 2 then show ?case by simp
  next
    case 3 then show ?case by simp
  }
next
  case (Suc n)
  note ihv = Suc.IH(1) and ihe = Suc.IH(2) and ihm = Suc.IH(3)
  have v: "length r < length cs \<and> (\<forall>m. 2 * length cs + 1 \<le> m \<longrightarrow> parse_value m cs = Some (v, r))"
    if a: "parse_value (Suc n) cs = Some (v, r)" for cs v r
  proof -
    from parse_value_Suc_cases [OF a]
    consider (mem) x where "length x < length cs" "parse_members n [] x = Some (v, r)"
        "\<forall>m. parse_members m [] x = Some (v, r) \<longrightarrow> parse_value (Suc m) cs = Some (v, r)"
      | (elt) x where "length x < length cs" "parse_elements n [] x = Some (v, r)"
        "\<forall>m. parse_elements m [] x = Some (v, r) \<longrightarrow> parse_value (Suc m) cs = Some (v, r)"
      | (leaf) "length r < length cs" "\<forall>m. parse_value (Suc m) cs = Some (v, r)"
      by blast
    then show ?thesis
    proof cases
      case mem
      from ihm [OF mem(2)] have l: "length r < length x"
        and f: "\<And>m. 2 * length x + 2 \<le> m \<Longrightarrow> parse_members m [] x = Some (v, r)" by blast+
      have "parse_value m cs = Some (v, r)" if m: "2 * length cs + 1 \<le> m" for m
      proof -
        obtain m' where m': "m = Suc m'" using m by (cases m) auto
        then have "2 * length x + 2 \<le> m'" using m mem(1) by linarith
        then show ?thesis using f mem(3) m' by blast
      qed
      then show ?thesis using l mem(1) by auto
    next
      case elt
      from ihe [OF elt(2)] have l: "length r < length x"
        and f: "\<And>m. 2 * length x + 2 \<le> m \<Longrightarrow> parse_elements m [] x = Some (v, r)" by blast+
      have "parse_value m cs = Some (v, r)" if m: "2 * length cs + 1 \<le> m" for m
      proof -
        obtain m' where m': "m = Suc m'" using m by (cases m) auto
        then have "2 * length x + 2 \<le> m'" using m elt(1) by linarith
        then show ?thesis using f elt(3) m' by blast
      qed
      then show ?thesis using l elt(1) by auto
    next
      case leaf
      have "parse_value m cs = Some (v, r)" if m: "2 * length cs + 1 \<le> m" for m
      proof -
        obtain m' where m': "m = Suc m'" using m by (cases m) auto
        then show ?thesis using leaf(2) by blast
      qed
      then show ?thesis using leaf(1) by auto
    qed
  qed
  have e: "length r < length cs \<and> (\<forall>m. 2 * length cs + 2 \<le> m \<longrightarrow> parse_elements m acc cs = Some (v, r))"
    if a: "parse_elements (Suc n) acc cs = Some (v, r)" for cs acc v r
  proof -
    from parse_elements_Suc_cases [OF a] obtain v1 r1 where p: "parse_value n cs = Some (v1, r1)"
      and alt: "(\<exists>x. length x < length r1 \<and> parse_elements n (v1 # acc) x = Some (v, r) \<and>
                 (\<forall>m. parse_value m cs = Some (v1, r1) \<longrightarrow>
                      parse_elements m (v1 # acc) x = Some (v, r) \<longrightarrow>
                      parse_elements (Suc m) acc cs = Some (v, r)))
            \<or> (length r < length r1 \<and>
                 (\<forall>m. parse_value m cs = Some (v1, r1) \<longrightarrow> parse_elements (Suc m) acc cs = Some (v, r)))"
      by blast
    from ihv [OF p] have l1: "length r1 < length cs"
      and fv: "\<And>m. 2 * length cs + 1 \<le> m \<Longrightarrow> parse_value m cs = Some (v1, r1)" by blast+
    from alt show ?thesis
    proof
      assume "\<exists>x. length x < length r1 \<and> parse_elements n (v1 # acc) x = Some (v, r) \<and>
                 (\<forall>m. parse_value m cs = Some (v1, r1) \<longrightarrow>
                      parse_elements m (v1 # acc) x = Some (v, r) \<longrightarrow>
                      parse_elements (Suc m) acc cs = Some (v, r))"
      then obtain x where x: "length x < length r1" "parse_elements n (v1 # acc) x = Some (v, r)"
        and k: "\<And>m. parse_value m cs = Some (v1, r1) \<Longrightarrow>
                      parse_elements m (v1 # acc) x = Some (v, r) \<Longrightarrow>
                      parse_elements (Suc m) acc cs = Some (v, r)"
        by blast
      from ihe [OF x(2)] have l: "length r < length x"
        and f: "\<And>m. 2 * length x + 2 \<le> m \<Longrightarrow> parse_elements m (v1 # acc) x = Some (v, r)" by blast+
      have "parse_elements m acc cs = Some (v, r)" if m: "2 * length cs + 2 \<le> m" for m
      proof -
        obtain m' where m': "m = Suc m'" using m by (cases m) auto
        then have "2 * length cs + 1 \<le> m'" "2 * length x + 2 \<le> m'" using m x(1) l1 by linarith+
        then show ?thesis using fv f k m' by blast
      qed
      then show ?thesis using l x(1) l1 by auto
    next
      assume "length r < length r1 \<and>
                 (\<forall>m. parse_value m cs = Some (v1, r1) \<longrightarrow> parse_elements (Suc m) acc cs = Some (v, r))"
      then have l: "length r < length r1"
        and k: "\<And>m. parse_value m cs = Some (v1, r1) \<Longrightarrow> parse_elements (Suc m) acc cs = Some (v, r)"
        by blast+
      have "parse_elements m acc cs = Some (v, r)" if m: "2 * length cs + 2 \<le> m" for m
      proof -
        obtain m' where m': "m = Suc m'" using m by (cases m) auto
        then have "2 * length cs + 1 \<le> m'" using m by linarith
        then show ?thesis using fv k m' by blast
      qed
      then show ?thesis using l l1 by auto
    qed
  qed
  have mm: "length r < length cs \<and> (\<forall>m. 2 * length cs + 2 \<le> m \<longrightarrow> parse_members m acc cs = Some (v, r))"
    if a: "parse_members (Suc n) acc cs = Some (v, r)" for cs acc v r
  proof -
    from parse_members_Suc_cases [OF a] obtain k v1 r2 r3 where l2: "length r2 < length cs"
      and p: "parse_value n r2 = Some (v1, r3)"
      and alt: "(\<exists>x. length x < length r3 \<and> parse_members n ((k, v1) # acc) x = Some (v, r) \<and>
                 (\<forall>m. parse_value m r2 = Some (v1, r3) \<longrightarrow>
                      parse_members m ((k, v1) # acc) x = Some (v, r) \<longrightarrow>
                      parse_members (Suc m) acc cs = Some (v, r)))
            \<or> (length r < length r3 \<and>
                 (\<forall>m. parse_value m r2 = Some (v1, r3) \<longrightarrow> parse_members (Suc m) acc cs = Some (v, r)))"
      by blast
    from ihv [OF p] have l3: "length r3 < length r2"
      and fv: "\<And>m. 2 * length r2 + 1 \<le> m \<Longrightarrow> parse_value m r2 = Some (v1, r3)" by blast+
    from alt show ?thesis
    proof
      assume "\<exists>x. length x < length r3 \<and> parse_members n ((k, v1) # acc) x = Some (v, r) \<and>
                 (\<forall>m. parse_value m r2 = Some (v1, r3) \<longrightarrow>
                      parse_members m ((k, v1) # acc) x = Some (v, r) \<longrightarrow>
                      parse_members (Suc m) acc cs = Some (v, r))"
      then obtain x where x: "length x < length r3" "parse_members n ((k, v1) # acc) x = Some (v, r)"
        and kk: "\<And>m. parse_value m r2 = Some (v1, r3) \<Longrightarrow>
                      parse_members m ((k, v1) # acc) x = Some (v, r) \<Longrightarrow>
                      parse_members (Suc m) acc cs = Some (v, r)"
        by blast
      from ihm [OF x(2)] have l: "length r < length x"
        and f: "\<And>m. 2 * length x + 2 \<le> m \<Longrightarrow> parse_members m ((k, v1) # acc) x = Some (v, r)" by blast+
      have "parse_members m acc cs = Some (v, r)" if m: "2 * length cs + 2 \<le> m" for m
      proof -
        obtain m' where m': "m = Suc m'" using m by (cases m) auto
        then have "2 * length r2 + 1 \<le> m'" "2 * length x + 2 \<le> m'" using m x(1) l2 l3 by linarith+
        then show ?thesis using fv f kk m' by blast
      qed
      then show ?thesis using l x(1) l2 l3 by auto
    next
      assume "length r < length r3 \<and>
                 (\<forall>m. parse_value m r2 = Some (v1, r3) \<longrightarrow> parse_members (Suc m) acc cs = Some (v, r))"
      then have l: "length r < length r3"
        and kk: "\<And>m. parse_value m r2 = Some (v1, r3) \<Longrightarrow> parse_members (Suc m) acc cs = Some (v, r)"
        by blast+
      have "parse_members m acc cs = Some (v, r)" if m: "2 * length cs + 2 \<le> m" for m
      proof -
        obtain m' where m': "m = Suc m'" using m by (cases m) auto
        then have "2 * length r2 + 1 \<le> m'" using m l2 by linarith
        then show ?thesis using fv kk m' by blast
      qed
      then show ?thesis using l l2 l3 by auto
    qed
  qed
  {
    case 1 then show ?case by (rule v)
  next
    case 2 then show ?case by (rule e)
  next
    case 3 then show ?case by (rule mm)
  }
qed

lemma JSON_parse_any_bound:
  assumes a: "parse_value n s = Some (v, r)" and b: "skip_ws r = []"
  shows "JSON_parse s = Inr v"
proof -
  have "2 * length s + 1 \<le> 2 * length s + 2" by simp
  with parse_fuel(1) [OF a] have x: "parse_value (2 * length s + 2) s = Some (v, r)" by blast
  show ?thesis unfolding JSON_parse_def x using b by simp
qed

section \<open>Properties of the tracking endpoints\<close>




lemma decode_not_json: "decodeToken ''bm90IGpzb24='' = Inl syntaxError"
  by code_simp

lemma decode_empty_object: "decodeToken ''e30='' = Inr (JObject [])"
  by code_simp

text \<open>
  Claim C3, as the code has it. When decoding the token throws (the decoded text is
  no JSON) or gives \<open>null\<close>, whose destructuring throws, the \<open>try\<close> block of both
  handlers ends with that error before the store is called: with every store, the pixel
  handler and the redirect handler leave the database as it was. Nothing else is
  checked: when the token decodes to any other value \<open>v\<close>, the handlers call the
  update of the store with the properties of \<open>v\<close> as they are, \<open>undefined\<close> when
  \<open>v\<close> has none, and what is recorded is what the store makes of them.
\<close>

theorem decode_failure_records_nothing:
  "(decodeToken t = Inl e \<or> decodeToken t = Inr JNull \<longrightarrow>
      recordEvent client t p d = Inl (case decodeToken t of Inl err \<Rightarrow> err | Inr v \<Rightarrow> nullError) \<and>
      fst (snd (pixelHandler client now (Some t) (d, out))) = d \<and>
      fst (snd (redirectHandler client now t url (d, out))) = d) \<and>
   (decodeToken t = Inr v \<and> v \<noteq> JNull \<and> v \<noteq> JUndefined \<longrightarrow>
      recordEvent client t p d =
        (case sendEvent_updateMany client
                (WhereTracking (property v ''leadId'') (property v ''campaignLeadId'')
                   (property v ''campaignStepId'') SENT) p d of
           Inl err \<Rightarrow> Inl err
         | Inr d1 \<Rightarrow> Inr (property v ''originalUrl'', d1)))"
proof (intro conjI impI)
  assume a: "decodeToken t = Inl e \<or> decodeToken t = Inr JNull"
  have r: "\<And>q. recordEvent client t q d = Inl (case decodeToken t of Inl err \<Rightarrow> err | Inr v \<Rightarrow> nullError)"
    using a by (auto simp: recordEvent_def trackingFields_def)
  show "recordEvent client t p d = Inl (case decodeToken t of Inl err \<Rightarrow> err | Inr v \<Rightarrow> nullError)"
    by (rule r)
  show "fst (snd (pixelHandler client now (Some t) (d, out))) = d"
    by (simp add: r pixelHandler_def)
  show "fst (snd (redirectHandler client now t url (d, out))) = d"
    by (simp add: r redirectHandler_def Let_def)
next
  assume "decodeToken t = Inr v \<and> v \<noteq> JNull \<and> v \<noteq> JUndefined"
  then show "recordEvent client t p d =
        (case sendEvent_updateMany client
                (WhereTracking (property v ''leadId'') (property v ''campaignLeadId'')
                   (property v ''campaignStepId'') SENT) p d of
           Inl err \<Rightarrow> Inl err
         | Inr d1 \<Rightarrow> Inr (property v ''originalUrl'', d1))"
    by (cases v) (simp_all add: recordEvent_def trackingFields_def split: sum.splits)
qed

theorem decode_failure_records_nothing_witness:
  "decodeToken ''bm90IGpzb24='' = Inl syntaxError \<and>
   fst (snd (pixelHandler memPrisma 5000 (Some ''bm90IGpzb24='') (exampleDb, []))) = exampleDb \<and>
   fst (snd (redirectHandler memPrisma 5000 ''bm90IGpzb24='' None (exampleDb, []))) = exampleDb \<and>
   decodeToken ''e30='' = Inr (JObject []) \<and>
   recordEvent memPrisma ''e30='' (no_patch\<lparr>set_openedAt := Some 5000\<rparr>) exampleDb =
     Inr (JUndefined, exampleDb\<lparr>sendEvents := [exampleRow\<lparr>openedAt := Some 5000\<rparr>]\<rparr>)"
proof -
  have a: "fst (snd (pixelHandler memPrisma 5000 (Some ''bm90IGpzb24='') (exampleDb, []))) = exampleDb \<and>
      fst (snd (redirectHandler memPrisma 5000 ''bm90IGpzb24='' None (exampleDb, []))) = exampleDb"
    using decode_failure_records_nothing [of "''bm90IGpzb24=''" syntaxError memPrisma _ exampleDb 5000 "[]" None]
      decode_not_json
    by simp
  have "recordEvent memPrisma ''e30='' (no_patch\<lparr>set_openedAt := Some 5000\<rparr>) exampleDb =
        (case sendEvent_updateMany memPrisma
                (WhereTracking (property (JObject []) ''leadId'') (property (JObject []) ''campaignLeadId'')
                   (property (JObject []) ''campaignStepId'') SENT)
                (no_patch\<lparr>set_openedAt := Some 5000\<rparr>) exampleDb of
           Inl err \<Rightarrow> Inl err
         | Inr d1 \<Rightarrow> Inr (property (JObject []) ''originalUrl'', d1))"
    using decode_failure_records_nothing [of "''e30=''" _ memPrisma _ exampleDb _ _ _ "JObject []"]
      decode_empty_object
    by simp
  then have b: "recordEvent memPrisma ''e30='' (no_patch\<lparr>set_openedAt := Some 5000\<rparr>) exampleDb =
     Inr (JUndefined, exampleDb\<lparr>sendEvents := [exampleRow\<lparr>openedAt := Some 5000\<rparr>]\<rparr>)"
    by (simp add: property_def memPrisma_def mem_updateMany_def exampleDb_def exampleRow_def newRow_def
          applyPatch_def no_patch_def)
  show ?thesis using a b decode_not_json decode_empty_object by blast
qed

text \<open>
  Claim C3 as stated fails for a payload without the required fields. The token
  \<open>e30=\<close> is the encoding of the empty object: it decodes without error, its three ids
  are \<open>undefined\<close>, and the pixel handler has the store update the SENT events with
  these ids as filter; on the store in memory the open is recorded on the event of lead 7.
\<close>

theorem missing_fields_counterexample:
  "decodeToken ''e30='' = Inr (JObject []) \<and>
   trackingFields (JObject []) = Inr (JUndefined, JUndefined, JUndefined, JUndefined) \<and>
   map openedAt (sendEvents exampleDb) = [None] \<and>
   map openedAt (sendEvents (fst (snd (pixelHandler memPrisma 5000 (Some ''e30='') (exampleDb, []))))) =
     [Some 5000]"
  by (simp add: decode_empty_object pixelHandler_def recordEvent_def trackingFields_def property_def
        memPrisma_def mem_updateMany_def exampleDb_def exampleRow_def newRow_def applyPatch_def
        no_patch_def)

end
